theory Spec2Isabelle
  imports Main
begin

section \<open>Strings of the platform\<close>

text \<open>
  A JavaScript string is a sequence of UTF-16 code units. The regular expressions of
  \<^verbatim>\<open>message-parser.ts\<close> carry no \<^verbatim>\<open>u\<close> flag, so they, \<^verbatim>\<open>split\<close>,
  \<^verbatim>\<open>trim\<close> and \<^verbatim>\<open>includes\<close> all work on code units. A string is modelled as the
  list of its code units, each a natural number; \<open>str\<close> turns an ASCII literal into
  such a list.
\<close>

type_synonym jsstring = "nat list"

definition str :: "string \<Rightarrow> jsstring" where
  "str s = map of_char s"

text \<open>
  White space as \<^verbatim>\<open>String.prototype.trim\<close> and the class \<^verbatim>\<open>\s\<close> understand it:
  the WhiteSpace and LineTerminator productions of ECMAScript (TAB, LF, VT, FF, CR, SP, NBSP,
  U+1680, U+2000 to U+200A, LS, PS, U+202F, U+205F, U+3000, U+FEFF).
\<close>

definition isWhiteSpace :: "nat \<Rightarrow> bool" where
  "isWhiteSpace c \<longleftrightarrow>
     (9 \<le> c \<and> c \<le> 13) \<or> c = 32 \<or> c = 160 \<or> c = 5760 \<or> (8192 \<le> c \<and> c \<le> 8202) \<or>
     c = 8232 \<or> c = 8233 \<or> c = 8239 \<or> c = 8287 \<or> c = 12288 \<or> c = 65279"

definition isDigit :: "nat \<Rightarrow> bool" where
  "isDigit c \<longleftrightarrow> 48 \<le> c \<and> c \<le> 57"

text \<open>The line terminators, which \<^verbatim>\<open>.\<close> does not match: LF, CR, LS, PS.\<close>

definition isLineTerminator :: "nat \<Rightarrow> bool" where
  "isLineTerminator c \<longleftrightarrow> c = 10 \<or> c = 13 \<or> c = 8232 \<or> c = 8233"

definition trim :: "jsstring \<Rightarrow> jsstring" where
  "trim s = rev (dropWhile isWhiteSpace (rev (dropWhile isWhiteSpace s)))"

text \<open>\<^verbatim>\<open>s.split(sep)\<close> for a separator of one code unit; \<^verbatim>\<open>"".split(sep)\<close> is \<^verbatim>\<open>[""]\<close>.\<close>

fun split :: "jsstring \<Rightarrow> nat \<Rightarrow> jsstring list" where
  "split [] sep = [[]]"
| "split (c # cs) sep =
     (if c = sep then [] # split cs sep
      else (case split cs sep of
              [] \<Rightarrow> [[c]]
            | piece # pieces \<Rightarrow> (c # piece) # pieces))"

fun startsWith :: "jsstring \<Rightarrow> jsstring \<Rightarrow> bool" where
  "startsWith s [] = True"
| "startsWith [] (p # ps) = False"
| "startsWith (c # cs) (p # ps) = (c = p \<and> startsWith cs ps)"

text \<open>\<^verbatim>\<open>s.includes(t)\<close>: \<open>t\<close> occurs in \<open>s\<close> as a contiguous run.\<close>

fun includes_str :: "jsstring \<Rightarrow> jsstring \<Rightarrow> bool" where
  "includes_str [] t = (t = [])"
| "includes_str (c # cs) t = (startsWith (c # cs) t \<or> includes_str cs t)"

section \<open>The regular expressions\<close>

text \<open>
  The four patterns are sequences of character classes with greedy quantifiers, cut into
  capture groups; the last two start with the anchor \<^verbatim>\<open>^\<close>. A pattern is modelled as
  the list of its items in the order of the source text, and matched by backtracking the
  way the platform does: a quantifier first takes as many code units as it can and gives
  them back one at a time while the rest of the pattern fails.
\<close>

datatype cclass =
    Chr nat       \<comment> \<open>a literal code unit\<close>
  | Digit         \<comment> \<open>\<^verbatim>\<open>\d\<close>\<close>
  | Space         \<comment> \<open>\<^verbatim>\<open>\s\<close>\<close>
  | NotChr nat    \<comment> \<open>\<^verbatim>\<open>[^c]\<close>\<close>
  | Dot           \<comment> \<open>\<^verbatim>\<open>.\<close>\<close>

fun member :: "cclass \<Rightarrow> nat \<Rightarrow> bool" where
  "member (Chr k) c = (c = k)"
| "member Digit c = isDigit c"
| "member Space c = isWhiteSpace c"
| "member (NotChr k) c = (c \<noteq> k)"
| "member Dot c = (\<not> isLineTerminator c)"

datatype node =
    Rep cclass nat "nat option"   \<comment> \<open>class, least and greatest number of repetitions\<close>
  | GOpen                         \<comment> \<open>\<^verbatim>\<open>(\<close>\<close>
  | GClose                        \<comment> \<open>\<^verbatim>\<open>)\<close>\<close>

abbreviation Lit :: "char \<Rightarrow> node" where
  "Lit c \<equiv> Rep (Chr (of_char c)) 1 (Some 1)"

abbreviation Star :: "cclass \<Rightarrow> node" where
  "Star c \<equiv> Rep c 0 None"

abbreviation Plus :: "cclass \<Rightarrow> node" where
  "Plus c \<equiv> Rep c 1 None"

abbreviation Times :: "cclass \<Rightarrow> nat \<Rightarrow> nat \<Rightarrow> node" where
  "Times c lo hi \<equiv> Rep c lo (Some hi)"

record regex =
  anchored :: bool
  nodes :: "node list"

text \<open>The number of code units a greedy quantifier takes at first.\<close>

definition greedy :: "cclass \<Rightarrow> nat option \<Rightarrow> jsstring \<Rightarrow> nat" where
  "greedy c hi rest =
     length (takeWhile (member c) (case hi of None \<Rightarrow> rest | Some h \<Rightarrow> take h rest))"

text \<open>
  \<open>run ns rest cur caps\<close> matches the items \<open>ns\<close> at the front of \<open>rest\<close>; \<open>cur\<close> is
  the text of the group that is open, \<open>caps\<close> the groups already closed, last first. The
  result is the list of captured groups of the first match in backtracking order.
\<close>

function run :: "node list \<Rightarrow> jsstring \<Rightarrow> jsstring option \<Rightarrow> jsstring list \<Rightarrow> jsstring list option"
  and backtrack :: "node list \<Rightarrow> nat \<Rightarrow> nat \<Rightarrow> jsstring \<Rightarrow> jsstring option \<Rightarrow> jsstring list
                      \<Rightarrow> jsstring list option" where
  "run [] rest cur caps = Some (rev caps)"
| "run (GOpen # ns) rest cur caps = run ns rest (Some []) caps"
| "run (GClose # ns) rest cur caps =
     run ns rest None (case cur of None \<Rightarrow> caps | Some g \<Rightarrow> g # caps)"
| "run (Rep c lo hi # ns) rest cur caps = backtrack ns lo (greedy c hi rest) rest cur caps"
| "backtrack ns lo k rest cur caps =
     (if k < lo then None
      else (case run ns (drop k rest) (map_option (\<lambda>g. g @ take k rest) cur) caps of
              Some groups \<Rightarrow> Some groups
            | None \<Rightarrow> (if k = 0 then None else backtrack ns lo (k - 1) rest cur caps)))"
  by pat_completeness auto
termination
  by (relation "measures
        [\<lambda>x. case x of Inl (ns, _) \<Rightarrow> 2 * length ns | Inr (ns, _) \<Rightarrow> 2 * length ns + 1,
         \<lambda>x. case x of Inl _ \<Rightarrow> 0 | Inr (_, _, k, _) \<Rightarrow> k]") auto

declare backtrack.simps [simp del]

text \<open>An unanchored pattern is tried at every start position, leftmost first.\<close>

fun search :: "node list \<Rightarrow> jsstring \<Rightarrow> jsstring list option" where
  "search ns [] = run ns [] None []"
| "search ns (c # cs) =
     (case run ns (c # cs) None [] of
        Some groups \<Rightarrow> Some groups
      | None \<Rightarrow> search ns cs)"

text \<open>\<^verbatim>\<open>line.match(pattern)\<close>: the captured groups, or \<open>None\<close> for \<^verbatim>\<open>null\<close>.\<close>

definition match :: "jsstring \<Rightarrow> regex \<Rightarrow> jsstring list option" where
  "match line pattern =
     (if anchored pattern then run (nodes pattern) line None []
      else search (nodes pattern) line)"

definition messagePatterns :: "regex list" where
  "messagePatterns =
    [\<lparr>anchored = False,
      nodes = [Lit CHR ''['', GOpen, Times Digit 1 2, Lit CHR '':'', Times Digit 2 2, GClose,
               Lit CHR '','', Star Space,
               GOpen, Times Digit 1 2, Lit CHR ''/'', Times Digit 1 2, Lit CHR ''/'',
                      Times Digit 4 4, GClose,
               Lit CHR '']'', Star Space, GOpen, Plus (NotChr 58), GClose, Lit CHR '':'',
               Star Space, GOpen, Star Dot, GClose]\<rparr>,
     \<lparr>anchored = False,
      nodes = [GOpen, Times Digit 1 2, Lit CHR '':'', Times Digit 2 2, GClose, Plus Space,
               GOpen, Plus (NotChr 58), GClose, Lit CHR '':'', Star Space,
               GOpen, Star Dot, GClose]\<rparr>,
     \<lparr>anchored = True,
      nodes = [GOpen, Plus (NotChr 58), GClose, Plus Space,
               GOpen, Times Digit 1 2, Lit CHR '':'', Times Digit 2 2, GClose, Plus Space,
               GOpen, Star Dot, GClose]\<rparr>,
     \<lparr>anchored = True,
      nodes = [GOpen, Times Digit 1 2, Lit CHR '':'', Times Digit 2 2, GClose, Plus Space,
               GOpen, Star Dot, GClose]\<rparr>]"

section \<open>The platform: lower-casing, the clock and dates\<close>

text \<open>
  Three things come from the platform and not from the repository: the result of
  \<^verbatim>\<open>String.prototype.toLowerCase\<close> (a table over all of Unicode), the current time
  read by \<^verbatim>\<open>new Date()\<close>, and the local time zone. They are parameters of the
  model. The time zone is the function LocalTZA of ECMAScript: \<open>localTZA env t True\<close> is
  the offset from UTC, in milliseconds, in force at the instant \<open>t\<close>, and
  \<open>localTZA env t False\<close> is the offset the platform uses to read \<open>t\<close> as a local
  time. With daylight saving the offset depends on \<open>t\<close>, and a local time inside the
  hour that a transition skips is read with the offset from before the transition.
\<close>

record platform =
  toLowerCase :: "jsstring \<Rightarrow> jsstring"
  localTZA :: "int \<Rightarrow> bool \<Rightarrow> int"
  now :: int

text \<open>
  A \<^verbatim>\<open>Date\<close> holds a time value: milliseconds since the epoch, or NaN for an invalid
  date. A \<^verbatim>\<open>number\<close> that reaches the date functions is an integer or NaN. Both are
  modelled as \<open>int option\<close>, with \<open>None\<close> for NaN.
\<close>

type_synonym number = "int option"
type_synonym date = "int option"

text \<open>
  \<^verbatim>\<open>Number(s)\<close> on a nonempty run of ASCII digits is its decimal value. The parser
  applies it only to the pieces of a captured time or date, which are such runs (lemma
  \<open>time_group_shape\<close> below). What the platform answers on other strings never
  matters to the parser, and the model answers NaN there.
\<close>

definition Number :: "jsstring \<Rightarrow> number" where
  "Number s =
     (if s \<noteq> [] \<and> list_all isDigit s
      then Some (foldl (\<lambda>acc c. 10 * acc + (int c - 48)) 0 s)
      else None)"

text \<open>Array destructuring: a missing element is \<^verbatim>\<open>undefined\<close>, which as a number is NaN.\<close>

definition item :: "number list \<Rightarrow> nat \<Rightarrow> number" where
  "item xs i = (if i < length xs then xs ! i else None)"

text \<open>The date arithmetic of ECMAScript (section "Time Values and Time Range").\<close>

definition msPerDay :: int where
  "msPerDay = 86400000"

definition Day :: "int \<Rightarrow> int" where
  "Day t = t div msPerDay"

definition DayFromYear :: "int \<Rightarrow> int" where
  "DayFromYear y =
     365 * (y - 1970) + (y - 1969) div 4 - (y - 1901) div 100 + (y - 1601) div 400"

definition InLeapYear :: "int \<Rightarrow> bool" where
  "InLeapYear y \<longleftrightarrow> y mod 4 = 0 \<and> (y mod 100 \<noteq> 0 \<or> y mod 400 = 0)"

definition daysBeforeMonth :: "nat \<Rightarrow> bool \<Rightarrow> int" where
  "daysBeforeMonth mn leap =
     [0, 31, 59, 90, 120, 151, 181, 212, 243, 273, 304, 334] ! mn
       + (if leap \<and> 2 \<le> mn then 1 else 0)"

definition MakeDay :: "int \<Rightarrow> int \<Rightarrow> int \<Rightarrow> int" where
  "MakeDay year month dt =
     (let ym = year + month div 12;
          mn = nat (month mod 12)
      in DayFromYear ym + daysBeforeMonth mn (InLeapYear ym) + dt - 1)"

definition MakeTime :: "int \<Rightarrow> int \<Rightarrow> int \<Rightarrow> int \<Rightarrow> int" where
  "MakeTime hour minute sec ms = hour * 3600000 + minute * 60000 + sec * 1000 + ms"

definition MakeDate :: "int \<Rightarrow> int \<Rightarrow> int" where
  "MakeDate day time = day * msPerDay + time"

definition TimeClip :: "int \<Rightarrow> date" where
  "TimeClip t = (if \<bar>t\<bar> > 8640000000000000 then None else Some t)"

definition LocalTime :: "platform \<Rightarrow> int \<Rightarrow> int" where
  "LocalTime env t = t + localTZA env t True"

definition UTC :: "platform \<Rightarrow> int \<Rightarrow> int" where
  "UTC env t = t - localTZA env t False"

text \<open>
  \<^verbatim>\<open>new Date(year, month, day, hours, minutes)\<close>: local time; a year from 0 to 99 stands
  for 1900 + year; any NaN argument gives an invalid date.
\<close>

definition newDate :: "platform \<Rightarrow> number \<Rightarrow> number \<Rightarrow> number \<Rightarrow> number \<Rightarrow> number \<Rightarrow> date" where
  "newDate env year month day hours minutes =
     (case (year, month, day, hours, minutes) of
        (Some y, Some m, Some dt, Some h, Some mi) \<Rightarrow>
          (let yr = (if 0 \<le> y \<and> y \<le> 99 then 1900 + y else y)
           in TimeClip (UTC env (MakeDate (MakeDay yr m dt) (MakeTime h mi 0 0))))
      | _ \<Rightarrow> None)"

text \<open>\<^verbatim>\<open>d.setHours(hours, minutes, 0, 0)\<close>: the new time value of \<open>d\<close>.\<close>

definition setHours :: "platform \<Rightarrow> date \<Rightarrow> number \<Rightarrow> number \<Rightarrow> date" where
  "setHours env d hours minutes =
     (case (d, hours, minutes) of
        (Some t, Some h, Some mi) \<Rightarrow>
          TimeClip (UTC env (MakeDate (Day (LocalTime env t)) (MakeTime h mi 0 0)))
      | _ \<Rightarrow> None)"

section \<open>The timestamp resolver\<close>

definition parseTimestamp :: "platform \<Rightarrow> jsstring \<Rightarrow> jsstring \<Rightarrow> date" where
  "parseTimestamp env time date =
     (let hm = map Number (split time 58);
          hours = item hm 0; minutes = item hm 1;
          dmy = map Number (split date 47);
          day = item dmy 0; month = item dmy 1; year = item dmy 2
      in newDate env year (map_option (\<lambda>m. m - 1) month) day hours minutes)"

definition parseTimeOnly :: "platform \<Rightarrow> jsstring \<Rightarrow> date \<Rightarrow> date" where
  "parseTimeOnly env time referenceDate =
     (let hm = map Number (split time 58);
          hours = item hm 0; minutes = item hm 1;
          newDate = referenceDate
      in setHours env newDate hours minutes)"

section \<open>The media classifier\<close>

definition mediaIndicators :: "jsstring list" where
  "mediaIndicators =
    [str ''Photo'', str ''Foto'', str ''Image'', str ''Imagem'',
     str ''Video'', str ''V'' @ [237] @ str ''deo'',
     str ''Audio'', [193] @ str ''udio'',
     str ''Document'', str ''Documento'',
     str ''GIF'',
     str ''Sticker'', str ''Figurinha'',
     str ''<Media omitted>'', str ''<M'' @ [237] @ str ''dia oculta>'',
     str ''.jpg'', str ''.png'', str ''.mp4'', str ''.pdf'', str ''.docx'']"

definition checkIfMedia :: "platform \<Rightarrow> jsstring \<Rightarrow> bool" where
  "checkIfMedia env content_text =
     (let lowerContent = toLowerCase env content_text
      in list_ex (\<lambda>indicator. includes_str lowerContent (toLowerCase env indicator))
           mediaIndicators)"

definition detectMediaType :: "platform \<Rightarrow> jsstring \<Rightarrow> jsstring option" where
  "detectMediaType env content_text =
     (let lowerContent = toLowerCase env content_text
      in if includes_str lowerContent (str ''photo'') \<or> includes_str lowerContent (str ''foto'') \<or>
            includes_str lowerContent (str ''image'') \<or> includes_str lowerContent (str ''imagem'') \<or>
            includes_str lowerContent (str ''.jpg'') \<or> includes_str lowerContent (str ''.png'')
         then Some (str ''image'')
         else if includes_str lowerContent (str ''video'') \<or>
                 includes_str lowerContent (str ''v'' @ [237] @ str ''deo'') \<or>
                 includes_str lowerContent (str ''.mp4'')
         then Some (str ''video'')
         else if includes_str lowerContent (str ''audio'') \<or>
                 includes_str lowerContent ([225] @ str ''udio'') \<or>
                 includes_str lowerContent (str ''.mp3'') \<or> includes_str lowerContent (str ''.ogg'')
         then Some (str ''audio'')
         else if includes_str lowerContent (str ''document'') \<or>
                 includes_str lowerContent (str ''documento'') \<or>
                 includes_str lowerContent (str ''.pdf'') \<or> includes_str lowerContent (str ''.docx'')
         then Some (str ''document'')
         else if includes_str lowerContent (str ''gif'')
         then Some (str ''gif'')
         else if includes_str lowerContent (str ''sticker'') \<or>
                 includes_str lowerContent (str ''figurinha'')
         then Some (str ''sticker'')
         else Some (str ''unknown''))"

section \<open>The parser\<close>

record WhatsAppMessage =
  timestamp :: date
  sender :: jsstring
  content :: jsstring
  isMedia :: bool
  mediaType :: "jsstring option"

text \<open>
  Calling a method on \<^verbatim>\<open>undefined\<close> raises a \<^verbatim>\<open>TypeError\<close>: that is what
  \<^verbatim>\<open>sender.trim()\<close> or \<^verbatim>\<open>time.split(':')\<close> would do if a destructured group were
  missing. It is the only way the parser can raise.
\<close>

datatype error = TypeError

text \<open>The variables of the loop over the lines.\<close>

record parser_state =
  messages :: "WhatsAppMessage list"
  currentMessage :: "WhatsAppMessage option"
  currentTimestamp :: date

text \<open>
  The inner loop over \<open>messagePatterns\<close>: the index of the first pattern that matches
  the line, with its groups.
\<close>

fun firstMatch :: "regex list \<Rightarrow> nat \<Rightarrow> jsstring \<Rightarrow> (nat \<times> jsstring list) option" where
  "firstMatch [] i line = None"
| "firstMatch (pattern # patterns) i line =
     (case match line pattern of
        Some groups \<Rightarrow> Some (i, groups)
      | None \<Rightarrow> firstMatch patterns (Suc i) line)"

text \<open>\<^verbatim>\<open>if (currentMessage && currentMessage.content) messages.push(currentMessage)\<close>\<close>

definition pushCurrent :: "parser_state \<Rightarrow> WhatsAppMessage list" where
  "pushCurrent st =
     (case currentMessage st of
        None \<Rightarrow> messages st
      | Some m \<Rightarrow> if content m \<noteq> [] then messages st @ [m] else messages st)"

definition newMessage :: "platform \<Rightarrow> date \<Rightarrow> jsstring \<Rightarrow> jsstring \<Rightarrow> WhatsAppMessage" where
  "newMessage env ts sender_text content_text =
     \<lparr>timestamp = ts, sender = sender_text, content = trim content_text,
      isMedia = checkIfMedia env content_text, mediaType = None\<rparr>"

text \<open>The body of the loop for a line matched by the pattern of index \<open>idx\<close>.\<close>

definition onMatch :: "platform \<Rightarrow> nat \<Rightarrow> jsstring list \<Rightarrow> parser_state \<Rightarrow> error + parser_state" where
  "onMatch env idx groups st =
     (let saved = pushCurrent st
      in if idx = 0 then
           (case groups of
              g_time # g_date # g_sender # g_content # _ \<Rightarrow>
                (let ts = parseTimestamp env g_time g_date
                 in Inr \<lparr>messages = saved,
                         currentMessage = Some (newMessage env ts (trim g_sender) g_content),
                         currentTimestamp = ts\<rparr>)
            | _ \<Rightarrow> Inl TypeError)
         else if idx = 1 then
           (case groups of
              g_time # g_sender # g_content # _ \<Rightarrow>
                (let ts = parseTimeOnly env g_time (currentTimestamp st)
                 in Inr \<lparr>messages = saved,
                         currentMessage = Some (newMessage env ts (trim g_sender) g_content),
                         currentTimestamp = ts\<rparr>)
            | _ \<Rightarrow> Inl TypeError)
         else if idx = 2 then
           (case groups of
              g_sender # g_time # g_content # _ \<Rightarrow>
                (let ts = parseTimeOnly env g_time (currentTimestamp st)
                 in Inr \<lparr>messages = saved,
                         currentMessage = Some (newMessage env ts (trim g_sender) g_content),
                         currentTimestamp = ts\<rparr>)
            | _ \<Rightarrow> Inl TypeError)
         else if idx = 3 then
           (case groups of
              g_time # g_content # _ \<Rightarrow>
                (let ts = parseTimeOnly env g_time (currentTimestamp st)
                 in Inr \<lparr>messages = saved,
                         currentMessage = Some (newMessage env ts (str ''Unknown'') g_content),
                         currentTimestamp = ts\<rparr>)
            | _ \<Rightarrow> Inl TypeError)
         else Inr (st\<lparr>messages := saved\<rparr>))"

text \<open>A line that no pattern matches continues the message in progress, if there is one.\<close>

definition onContinuation :: "jsstring \<Rightarrow> parser_state \<Rightarrow> parser_state" where
  "onContinuation line st =
     (case currentMessage st of
        None \<Rightarrow> st
      | Some m \<Rightarrow> st\<lparr>currentMessage := Some (m\<lparr>content := content m @ [32] @ trim line\<rparr>)\<rparr>)"

definition processLine :: "platform \<Rightarrow> parser_state \<Rightarrow> jsstring \<Rightarrow> error + parser_state" where
  "processLine env st line =
     (case firstMatch messagePatterns 0 line of
        Some (idx, groups) \<Rightarrow> onMatch env idx groups st
      | None \<Rightarrow> Inr (onContinuation line st))"

fun processLines :: "platform \<Rightarrow> parser_state \<Rightarrow> jsstring list \<Rightarrow> error + parser_state" where
  "processLines env st [] = Inr st"
| "processLines env st (line # rest) =
     (case processLine env st line of
        Inl e \<Rightarrow> Inl e
      | Inr st' \<Rightarrow> processLines env st' rest)"

text \<open>The pass that adds the media type.\<close>

definition addMediaType :: "platform \<Rightarrow> WhatsAppMessage \<Rightarrow> WhatsAppMessage" where
  "addMediaType env msg =
     (if isMedia msg then msg\<lparr>mediaType := detectMediaType env (content msg)\<rparr> else msg)"

definition splitLines :: "jsstring \<Rightarrow> jsstring list" where
  "splitLines rawText = filter (\<lambda>line. trim line \<noteq> []) (split rawText 10)"

definition parseWhatsAppMessages :: "platform \<Rightarrow> jsstring \<Rightarrow> error + WhatsAppMessage list" where
  "parseWhatsAppMessages env rawText =
     (if rawText = [] \<or> length (trim rawText) = 0 then Inr []
      else
        (case processLines env
                \<lparr>messages = [], currentMessage = None, currentTimestamp = Some (now env)\<rparr>
                (splitLines rawText) of
           Inl e \<Rightarrow> Inl e
         | Inr st \<Rightarrow> Inr (map (addMediaType env) (pushCurrent st))))"

section \<open>Filtering by time\<close>

text \<open>
  \<^verbatim>\<open>a >= b\<close> and \<^verbatim>\<open>a <= b\<close> on dates compare the time values as numbers; a comparison
  with NaN is false.
\<close>

definition date_ge :: "date \<Rightarrow> date \<Rightarrow> bool" where
  "date_ge a b = (case (a, b) of (Some x, Some y) \<Rightarrow> x \<ge> y | _ \<Rightarrow> False)"

definition date_le :: "date \<Rightarrow> date \<Rightarrow> bool" where
  "date_le a b = (case (a, b) of (Some x, Some y) \<Rightarrow> x \<le> y | _ \<Rightarrow> False)"

definition filterMessagesByTime :: "WhatsAppMessage list \<Rightarrow> date \<Rightarrow> date \<Rightarrow> WhatsAppMessage list" where
  "filterMessagesByTime msgs startTime endTime =
     filter (\<lambda>msg. date_ge (timestamp msg) startTime \<and> date_le (timestamp msg) endTime) msgs"

section \<open>A concrete platform for the examples\<close>

text \<open>
  Lower-casing on Basic Latin and Latin-1, where the platform maps \<^verbatim>\<open>A-Z\<close> and
  U+00C0 to U+00DE (but not the multiplication sign U+00D7) 32 code units up and leaves
  the rest of these two blocks alone. The examples below only use code units of these
  blocks. The clock reads 2024-01-01 12:00:00 UTC, and local time is UTC.
\<close>

definition lowerLatin1 :: "jsstring \<Rightarrow> jsstring" where
  "lowerLatin1 s =
     map (\<lambda>c. if (65 \<le> c \<and> c \<le> 90) \<or> (192 \<le> c \<and> c \<le> 222 \<and> c \<noteq> 215) then c + 32 else c) s"

definition examplePlatform :: platform where
  "examplePlatform =
     \<lparr>toLowerCase = lowerLatin1, localTZA = (\<lambda>t isUTC. 0), now = 1704110400000\<rparr>"


section \<open>Notions used in the proofs\<close>





text \<open>The number of groups a pattern captures.\<close>

fun arity :: "node list \<Rightarrow> bool \<Rightarrow> nat" where
  "arity [] opened = 0"
| "arity (GOpen # ns) opened = arity ns True"
| "arity (GClose # ns) opened = (if opened then 1 else 0) + arity ns False"
| "arity (Rep c lo hi # ns) opened = arity ns opened"

text \<open>
  Where a message comes from: \<open>startedBy env line conts m\<close> says that \<open>m\<close> is the
  message in progress after a line that matched a pattern and then the continuation
  lines \<open>conts\<close>; \<open>provenance\<close> is the invariant of the loop over the lines that have
  been read.
\<close>

definition senderGroup :: "nat \<Rightarrow> nat" where
  "senderGroup idx = (if idx = 0 then 2 else if idx = 1 then 1 else 0)"

definition startedBy :: "platform \<Rightarrow> jsstring \<Rightarrow> jsstring list \<Rightarrow> WhatsAppMessage \<Rightarrow> bool" where
  "startedBy env line conts m \<longleftrightarrow>
     (\<exists>idx groups.
        firstMatch messagePatterns 0 line = Some (idx, groups) \<and>
        (\<forall>c\<in>set conts. firstMatch messagePatterns 0 c = None) \<and>
        content m = trim (last groups) @ concat (map (\<lambda>c. 32 # trim c) conts) \<and>
        isMedia m = checkIfMedia env (last groups) \<and>
        mediaType m = None \<and>
        sender m = (if idx = 3 then str ''Unknown'' else trim (groups ! senderGroup idx)))"

definition provenance :: "platform \<Rightarrow> jsstring list \<Rightarrow> parser_state \<Rightarrow> bool" where
  "provenance env seen st \<longleftrightarrow>
     (\<forall>m. currentMessage st = Some m \<longrightarrow>
        (\<exists>before line conts. seen = before @ line # conts \<and> startedBy env line conts m)) \<and>
     (\<forall>m\<in>set (messages st). content m \<noteq> [] \<and>
        (\<exists>before line conts after. seen = before @ line # conts @ after \<and> after \<noteq> [] \<and>
           firstMatch messagePatterns 0 (hd after) \<noteq> None \<and> startedBy env line conts m))"

text \<open>
  The shape of a captured time, \<^verbatim>\<open>H:MM\<close>, and of a captured date, \<^verbatim>\<open>D/M/YYYY\<close>: runs
  of digits around the separators, so that \<open>Number\<close> reads each piece.
\<close>

definition isTimeText :: "jsstring \<Rightarrow> bool" where
  "isTimeText s \<longleftrightarrow> (\<exists>hs ms h mi. s = hs @ [58] @ ms \<and> Number hs = Some h \<and> Number ms = Some mi)"

definition isDateText :: "jsstring \<Rightarrow> bool" where
  "isDateText s \<longleftrightarrow>
     (\<exists>ds mos ys d mo y. s = ds @ [47] @ mos @ [47] @ ys \<and>
        Number ds = Some d \<and> Number mos = Some mo \<and> Number ys = Some y)"

section \<open>Evaluation rules for concrete inputs\<close>

lemmas regex_eval = match_def messagePatterns_def str_def greedy_def backtrack.simps
  isDigit_def isWhiteSpace_def isLineTerminator_def

lemmas date_eval = parseTimestamp_def parseTimeOnly_def Number_def item_def newDate_def
  setHours_def MakeDay_def MakeTime_def MakeDate_def TimeClip_def UTC_def LocalTime_def Day_def
  msPerDay_def DayFromYear_def InLeapYear_def daysBeforeMonth_def

lemmas parser_eval = parseWhatsAppMessages_def splitLines_def trim_def processLine_def
  onMatch_def onContinuation_def pushCurrent_def newMessage_def addMediaType_def Let_def

lemmas media_eval = checkIfMedia_def detectMediaType_def mediaIndicators_def

lemmas platform_eval = examplePlatform_def lowerLatin1_def

section \<open>Facts about trimming\<close>

lemma dropWhile_has_nonmatching:
  "(\<exists>x\<in>set (dropWhile P xs). \<not> P x) \<longleftrightarrow> (\<exists>x\<in>set xs. \<not> P x)"
  by (induction xs) auto

lemma trim_nonempty_iff: "trim s \<noteq> [] \<longleftrightarrow> (\<exists>x\<in>set s. \<not> isWhiteSpace x)"
proof -
  have "trim s \<noteq> [] \<longleftrightarrow> (\<exists>x\<in>set (rev (dropWhile isWhiteSpace s)). \<not> isWhiteSpace x)"
    unfolding trim_def by (simp add: dropWhile_eq_Nil_conv)
  also have "\<dots> \<longleftrightarrow> (\<exists>x\<in>set s. \<not> isWhiteSpace x)"
    using dropWhile_has_nonmatching [of isWhiteSpace s] by simp
  finally show ?thesis .
qed

section \<open>The patterns always capture their groups\<close>

lemma run_backtrack_arity:
  "run ns rest cur caps = Some gs \<Longrightarrow> length gs = length caps + arity ns (cur \<noteq> None)"
  "backtrack ns lo k rest cur caps = Some gs \<Longrightarrow> length gs = length caps + arity ns (cur \<noteq> None)"
proof (induction ns rest cur caps and ns lo k rest cur caps arbitrary: gs and gs rule: run_backtrack.induct)
  case (1 rest cur caps)
  then show ?case by auto
next
  case (2 ns rest cur caps)
  then show ?case by auto
next
  case (3 ns rest cur caps)
  then show ?case by (cases cur) auto
next
  case (4 c lo hi ns rest cur caps)
  then show ?case by auto
next
  case (5 ns lo k rest cur caps)
  from "5.prems" have nlt: "\<not> k < lo"
    by (subst (asm) backtrack.simps) (auto split: if_splits)
  show ?case
  proof (cases "run ns (drop k rest) (map_option (\<lambda>g. g @ take k rest) cur) caps")
    case None
    with "5.prems" nlt have k0: "k \<noteq> 0" and bt: "backtrack ns lo (k - 1) rest cur caps = Some gs"
      by (subst (asm) backtrack.simps, auto split: if_splits)+
    from "5.IH"(2) [OF nlt None k0 bt] show ?thesis .
  next
    case (Some r)
    with "5.prems" nlt have "r = gs"
      by (subst (asm) backtrack.simps) auto
    with "5.IH"(1) [OF nlt] Some show ?thesis by (cases cur) auto
  qed
qed

lemma search_run: "search ns s = Some gs \<Longrightarrow> \<exists>s'. run ns s' None [] = Some gs"
  by (induction s) (auto split: option.splits)

lemma match_arity:
  "match line pattern = Some gs \<Longrightarrow> length gs = arity (nodes pattern) False"
  using run_backtrack_arity(1) [of "nodes pattern" _ None "[]" gs] search_run [of "nodes pattern" line gs]
  by (auto simp: match_def split: if_splits)

lemma firstMatch_iff:
  "firstMatch ps i line = Some (idx, groups) \<longleftrightarrow>
     i \<le> idx \<and> idx < i + length ps \<and> match line (ps ! (idx - i)) = Some groups \<and>
     (\<forall>j < idx - i. match line (ps ! j) = None)"
proof (induction ps arbitrary: i)
  case Nil
  then show ?case by auto
next
  case (Cons p ps)
  show ?case
  proof (cases "match line p")
    case None
    have "firstMatch (p # ps) i line = Some (idx, groups) \<longleftrightarrow> firstMatch ps (Suc i) line = Some (idx, groups)"
      using None by simp
    also have "\<dots> \<longleftrightarrow> Suc i \<le> idx \<and> idx < Suc i + length ps \<and> match line (ps ! (idx - Suc i)) = Some groups \<and>
     (\<forall>j < idx - Suc i. match line (ps ! j) = None)"
      by (rule Cons.IH)
    also have "\<dots> \<longleftrightarrow> i \<le> idx \<and> idx < i + length (p # ps) \<and> match line ((p # ps) ! (idx - i)) = Some groups \<and>
     (\<forall>j < idx - i. match line ((p # ps) ! j) = None)"
    proof (cases "idx \<le> i")
      case True
      then show ?thesis using None by auto
    next
      case False
      then obtain d where d: "idx - i = Suc d" "idx - Suc i = d"
        by (metis Suc_diff_Suc not_le_imp_less)
      show ?thesis using False None unfolding d
        by (auto simp: less_Suc_eq_0_disj)
    qed
    finally show ?thesis .
  next
    case (Some gs)
    then show ?thesis by (auto simp: nth_Cons')
  qed
qed

lemma messagePatterns_arity:
  "arity (nodes (messagePatterns ! 0)) False = 4"
  "arity (nodes (messagePatterns ! 1)) False = 3"
  "arity (nodes (messagePatterns ! Suc 0)) False = 3"
  "arity (nodes (messagePatterns ! 2)) False = 3"
  "arity (nodes (messagePatterns ! 3)) False = 2"
  "length messagePatterns = 4"
  by (simp_all add: messagePatterns_def)

lemma firstMatch_cases:
  assumes "firstMatch messagePatterns 0 line = Some (idx, groups)"
  shows "(idx = 0 \<and> length groups = 4) \<or> (idx = 1 \<and> length groups = 3) \<or>
         (idx = 2 \<and> length groups = 3) \<or> (idx = 3 \<and> length groups = 2)"
proof -
  from assms have lt: "idx < 4" and m: "match line (messagePatterns ! idx) = Some groups"
    by (simp_all add: firstMatch_iff messagePatterns_arity)
  from lt consider "idx = 0" | "idx = 1" | "idx = 2" | "idx = 3" by linarith
  then show ?thesis
    using match_arity [OF m] by cases (simp_all add: messagePatterns_arity)
qed

section \<open>Where an emitted message comes from\<close>

lemma list_of_length:
  "length xs = 4 \<Longrightarrow> \<exists>a b c d. xs = [a, b, c, d]"
  "length xs = 3 \<Longrightarrow> \<exists>a b c. xs = [a, b, c]"
  "length xs = 2 \<Longrightarrow> \<exists>a b. xs = [a, b]"
  by (auto simp: length_Suc_conv numeral_eq_Suc)

lemma onMatch_result:
  assumes "firstMatch messagePatterns 0 line = Some (idx, groups)"
  shows "\<exists>m'. onMatch env idx groups st =
                 Inr \<lparr>messages = pushCurrent st, currentMessage = Some m',
                      currentTimestamp = timestamp m'\<rparr> \<and>
              startedBy env line [] m' \<and>
              timestamp m' = (if idx = 0 then parseTimestamp env (groups ! 0) (groups ! 1)
                              else parseTimeOnly env (groups ! (if idx = 2 then 1 else 0))
                                     (currentTimestamp st))"
proof -
  from firstMatch_cases [OF assms]
  consider (p0) "idx = 0" "length groups = 4" | (p1) "idx = 1" "length groups = 3"
    | (p2) "idx = 2" "length groups = 3" | (p3) "idx = 3" "length groups = 2"
    by blast
  then show ?thesis
  proof cases
    case p0
    from list_of_length(1) [OF p0(2)] obtain a b c d where "groups = [a, b, c, d]" by blast
    then show ?thesis using assms p0(1)
      by (simp add: onMatch_def startedBy_def newMessage_def senderGroup_def Let_def)
  next
    case p1
    from list_of_length(2) [OF p1(2)] obtain a b c where "groups = [a, b, c]" by blast
    then show ?thesis using assms p1(1)
      by (simp add: onMatch_def startedBy_def newMessage_def senderGroup_def Let_def)
  next
    case p2
    from list_of_length(2) [OF p2(2)] obtain a b c where "groups = [a, b, c]" by blast
    then show ?thesis using assms p2(1)
      by (simp add: onMatch_def startedBy_def newMessage_def senderGroup_def Let_def)
  next
    case p3
    from list_of_length(3) [OF p3(2)] obtain a b where "groups = [a, b]" by blast
    then show ?thesis using assms p3(1)
      by (simp add: onMatch_def startedBy_def newMessage_def senderGroup_def Let_def)
  qed
qed

lemma processLine_total: "\<exists>st'. processLine env st line = Inr st'"
proof (cases "firstMatch messagePatterns 0 line")
  case None
  then show ?thesis by (simp add: processLine_def)
next
  case (Some r)
  obtain idx groups where "r = (idx, groups)" by (cases r)
  with Some onMatch_result [of line idx groups env st] show ?thesis
    by (auto simp: processLine_def)
qed

lemma processLines_total: "\<exists>st'. processLines env st ls = Inr st'"
proof (induction ls arbitrary: st)
  case Nil
  then show ?case by simp
next
  case (Cons l ls)
  obtain st1 where "processLine env st l = Inr st1"
    using processLine_total by blast
  with Cons.IH [of st1] show ?case by simp
qed

lemma startedBy_continue:
  assumes "startedBy env line conts m" "firstMatch messagePatterns 0 c = None"
  shows "startedBy env line (conts @ [c]) (m\<lparr>content := content m @ [32] @ trim c\<rparr>)"
  using assms unfolding startedBy_def by auto

lemma provenance_step:
  assumes inv: "provenance env seen st" and step: "processLine env st line = Inr st'"
  shows "provenance env (seen @ [line]) st'"
proof (cases "firstMatch messagePatterns 0 line")
  case None
  with step have st': "st' = onContinuation line st"
    by (simp add: processLine_def)
  have old: "\<forall>m\<in>set (messages st'). content m \<noteq> [] \<and>
        (\<exists>before l conts after. seen @ [line] = before @ l # conts @ after \<and> after \<noteq> [] \<and>
           firstMatch messagePatterns 0 (hd after) \<noteq> None \<and> startedBy env l conts m)"
  proof
    fix m assume "m \<in> set (messages st')"
    then have "m \<in> set (messages st)"
      by (simp add: st' onContinuation_def split: option.splits)
    with inv obtain before l conts after where
      d: "content m \<noteq> []" "seen = before @ l # conts @ after" "after \<noteq> []"
         "firstMatch messagePatterns 0 (hd after) \<noteq> None" "startedBy env l conts m"
      unfolding provenance_def by blast
    have "seen @ [line] = before @ l # conts @ (after @ [line])" "after @ [line] \<noteq> []"
         "hd (after @ [line]) = hd after"
      using d(2,3) by simp_all
    with d show "content m \<noteq> [] \<and>
        (\<exists>before l conts after. seen @ [line] = before @ l # conts @ after \<and> after \<noteq> [] \<and>
           firstMatch messagePatterns 0 (hd after) \<noteq> None \<and> startedBy env l conts m)"
      by metis
  qed
  have cur: "\<exists>before l conts. seen @ [line] = before @ l # conts \<and> startedBy env l conts m'"
    if "currentMessage st' = Some m'" for m'
  proof -
    from that obtain m where m: "currentMessage st = Some m"
        "m' = m\<lparr>content := content m @ [32] @ trim line\<rparr>"
      by (auto simp: st' onContinuation_def split: option.splits)
    with inv obtain before l conts where d: "seen = before @ l # conts" "startedBy env l conts m"
      unfolding provenance_def by blast
    have "seen @ [line] = before @ l # (conts @ [line])" using d(1) by simp
    moreover have "startedBy env l (conts @ [line]) m'"
      unfolding m(2) by (rule startedBy_continue [OF d(2) None])
    ultimately show ?thesis by blast
  qed
  from old cur show ?thesis unfolding provenance_def by blast
next
  case (Some r)
  obtain idx groups where r: "r = (idx, groups)" by (cases r)
  from Some r have fm: "firstMatch messagePatterns 0 line = Some (idx, groups)" by simp
  from onMatch_result [OF fm, of env st] step fm obtain m' where
    st': "st' = \<lparr>messages = pushCurrent st, currentMessage = Some m', currentTimestamp = timestamp m'\<rparr>"
    and sb: "startedBy env line [] m'"
    by (auto simp: processLine_def)
  have cur: "\<exists>before l conts. seen @ [line] = before @ l # conts \<and> startedBy env l conts m'"
    using sb by blast
  have old: "content m \<noteq> [] \<and>
        (\<exists>before l conts after. seen @ [line] = before @ l # conts @ after \<and> after \<noteq> [] \<and>
           firstMatch messagePatterns 0 (hd after) \<noteq> None \<and> startedBy env l conts m)"
    if "m \<in> set (pushCurrent st)" for m
  proof -
    from that consider (a) "m \<in> set (messages st)"
      | (b) "currentMessage st = Some m" "content m \<noteq> []"
      by (auto simp: pushCurrent_def split: option.splits if_splits)
    then show ?thesis
    proof cases
      case a
      with inv obtain before l conts after where
        d: "content m \<noteq> []" "seen = before @ l # conts @ after" "after \<noteq> []"
           "firstMatch messagePatterns 0 (hd after) \<noteq> None" "startedBy env l conts m"
        unfolding provenance_def by blast
      have "seen @ [line] = before @ l # conts @ (after @ [line])" "after @ [line] \<noteq> []"
           "hd (after @ [line]) = hd after"
        using d(2,3) by simp_all
      with d show ?thesis by metis
    next
      case b
      with inv obtain before l conts where d: "seen = before @ l # conts" "startedBy env l conts m"
        unfolding provenance_def by blast
      have "seen @ [line] = before @ l # conts @ [line]" "[line] \<noteq> []"
           "firstMatch messagePatterns 0 (hd [line]) \<noteq> None"
        using d(1) fm by simp_all
      with d(2) b(2) show ?thesis by blast
    qed
  qed
  from old cur show ?thesis unfolding provenance_def st' by simp
qed

lemma provenance_processLines:
  "provenance env seen st \<Longrightarrow> processLines env st ls = Inr st' \<Longrightarrow> provenance env (seen @ ls) st'"
proof (induction ls arbitrary: seen st)
  case Nil
  then show ?case by simp
next
  case (Cons l ls)
  from Cons.prems(2) obtain st1 where s1: "processLine env st l = Inr st1"
    and rest: "processLines env st1 ls = Inr st'"
    by (auto split: sum.splits)
  from Cons.IH [OF provenance_step [OF Cons.prems(1) s1] rest] show ?case by simp
qed

lemma emitted_provenance:
  assumes "parseWhatsAppMessages env rawText = Inr msgs" "m \<in> set msgs"
  shows "\<exists>m0 before line conts after.
           m = addMediaType env m0 \<and> content m0 \<noteq> [] \<and>
           splitLines rawText = before @ line # conts @ after \<and>
           (after = [] \<or> firstMatch messagePatterns 0 (hd after) \<noteq> None) \<and>
           startedBy env line conts m0"
proof -
  let ?st0 = "\<lparr>messages = [], currentMessage = None, currentTimestamp = Some (now env)\<rparr>"
  from assms have ne: "\<not> (rawText = [] \<or> length (trim rawText) = 0)"
    by (auto simp: parseWhatsAppMessages_def split: if_splits)
  with assms(1) obtain st where run: "processLines env ?st0 (splitLines rawText) = Inr st"
    and msgs: "msgs = map (addMediaType env) (pushCurrent st)"
    by (auto simp: parseWhatsAppMessages_def split: sum.splits)
  have "provenance env [] ?st0" by (simp add: provenance_def)
  from provenance_processLines [OF this run] have inv: "provenance env (splitLines rawText) st"
    by simp
  from assms(2) msgs obtain m0 where m0: "m = addMediaType env m0" "m0 \<in> set (pushCurrent st)"
    by auto
  from m0(2) consider (a) "m0 \<in> set (messages st)"
    | (b) "currentMessage st = Some m0" "content m0 \<noteq> []"
    by (auto simp: pushCurrent_def split: option.splits if_splits)
  then show ?thesis
  proof cases
    case a
    with inv m0(1) show ?thesis unfolding provenance_def by blast
  next
    case b
    with inv obtain before l conts where "splitLines rawText = before @ l # conts @ []"
      "startedBy env l conts m0"
      unfolding provenance_def by auto
    with b(2) m0(1) show ?thesis by blast
  qed
qed

section \<open>Splitting and date arithmetic\<close>

lemma split_no_sep: "sep \<notin> set s \<Longrightarrow> split s sep = [s]"
  by (induction s) auto

lemma split_append_sep: "sep \<notin> set a \<Longrightarrow> split (a @ sep # b) sep = a # split b sep"
  by (induction a) auto

lemma foldl_digits_nonneg:
  "0 \<le> acc \<Longrightarrow> 0 \<le> foldl (\<lambda>acc c. 10 * acc + (int c - 48)) acc s" if "list_all isDigit s"
  using that by (induction s arbitrary: acc) (auto simp: isDigit_def)

lemma Number_SomeD:
  assumes "Number s = Some n"
  shows "s \<noteq> []" "list_all isDigit s" "0 \<le> n" "58 \<notin> set s" "47 \<notin> set s"
proof -
  from assms show ne: "s \<noteq> []" and dg: "list_all isDigit s"
    by (auto simp: Number_def split: if_splits)
  from assms ne dg have "n = foldl (\<lambda>acc c. 10 * acc + (int c - 48)) 0 s"
    by (simp add: Number_def)
  then show "0 \<le> n" using foldl_digits_nonneg [OF dg, of 0] by simp
  from dg show "58 \<notin> set s" "47 \<notin> set s"
    by (auto simp: list_all_iff isDigit_def)
qed


lemma parseTimestamp_digits:
  assumes "Number hs = Some h" "Number ms = Some mi"
    "Number ds = Some d" "Number mos = Some mo" "Number ys = Some y"
  shows "parseTimestamp env (hs @ [58] @ ms) (ds @ [47] @ mos @ [47] @ ys) =
           newDate env (Some y) (Some (mo - 1)) (Some d) (Some h) (Some mi)"
proof -
  have "split (hs @ [58] @ ms) 58 = [hs, ms]"
    using Number_SomeD(4) [OF assms(1)] Number_SomeD(4) [OF assms(2)]
    by (simp add: split_append_sep split_no_sep)
  moreover have "split (ds @ [47] @ mos @ [47] @ ys) 47 = [ds, mos, ys]"
    using Number_SomeD(5) [OF assms(3)] Number_SomeD(5) [OF assms(4)] Number_SomeD(5) [OF assms(5)]
    by (simp add: split_append_sep split_no_sep)
  ultimately show ?thesis using assms
    by (simp add: parseTimestamp_def item_def)
qed


lemma MakeDay_month_overflow: "MakeDay year (month + 12) dt = MakeDay (year + 1) month dt"
proof -
  have e: "year + (month + 12) div 12 = year + 1 + month div 12" by simp
  have m: "(month + 12) mod 12 = month mod 12" by simp
  show ?thesis unfolding MakeDay_def Let_def e m by (rule refl)
qed


section \<open>More facts about trimming and the media pass\<close>

lemma addMediaType_fields [simp]:
  "content (addMediaType env m) = content m"
  "sender (addMediaType env m) = sender m"
  "isMedia (addMediaType env m) = isMedia m"
  "timestamp (addMediaType env m) = timestamp m"
  by (simp_all add: addMediaType_def)

lemma detectMediaType_defined: "detectMediaType env c \<noteq> None"
  by (simp add: detectMediaType_def Let_def)

lemma last_dropWhile_nonempty: "dropWhile P xs \<noteq> [] \<Longrightarrow> last (dropWhile P xs) = last xs"
  by (induction xs) (auto split: if_splits)

lemma trim_ends:
  assumes "trim s \<noteq> []"
  shows "\<not> isWhiteSpace (hd (trim s))" "\<not> isWhiteSpace (last (trim s))"
proof -
  let ?a = "dropWhile isWhiteSpace s"
  let ?b = "dropWhile isWhiteSpace (rev ?a)"
  from assms have b: "?b \<noteq> []" by (simp add: trim_def)
  have a: "?a \<noteq> []"
  proof
    assume e: "?a = []"
    have "?b = []" unfolding e by simp
    with b show False by contradiction
  qed
  have "last (trim s) = hd ?b" using b by (simp add: trim_def last_rev)
  then show "\<not> isWhiteSpace (last (trim s))" using hd_dropWhile [OF b] by simp
  have "hd (trim s) = last ?b" using b by (simp add: trim_def hd_rev)
  also have "\<dots> = last (rev ?a)" using b by (rule last_dropWhile_nonempty)
  also have "\<dots> = hd ?a" using a by (simp add: last_rev)
  finally show "\<not> isWhiteSpace (hd (trim s))" using hd_dropWhile [OF a] by simp
qed

lemma trim_id:
  assumes "s \<noteq> []" "\<not> isWhiteSpace (hd s)" "\<not> isWhiteSpace (last s)"
  shows "trim s = s"
proof -
  from assms(1,2) have 1: "dropWhile isWhiteSpace s = s" by (cases s) auto
  from assms(1,3) have "dropWhile isWhiteSpace (rev s) = rev s"
    by (cases "rev s") (auto simp: last_rev [symmetric] hd_rev)
  with 1 show ?thesis by (simp add: trim_def)
qed

lemma splitLines_nonblank: "l \<in> set (splitLines rawText) \<Longrightarrow> trim l \<noteq> []"
  by (simp add: splitLines_def)

lemma firstMatch_messagePatterns_iff:
  "firstMatch messagePatterns 0 line = Some (idx, groups) \<longleftrightarrow>
     idx < 4 \<and> match line (messagePatterns ! idx) = Some groups \<and>
     (\<forall>j<idx. match line (messagePatterns ! j) = None)"
  by (simp add: firstMatch_iff messagePatterns_arity)

lemma single_line: "10 \<notin> set line \<Longrightarrow> set (splitLines line) \<subseteq> {line}"
  by (simp add: splitLines_def split_no_sep)

section \<open>Every matched line gives its message\<close>

lemma split_pieces_subset: "l \<in> set (split s sep) \<Longrightarrow> set l \<subseteq> set s"
proof (induction s arbitrary: l)
  case Nil
  then show ?case by simp
next
  case (Cons c cs)
  show ?case
  proof (cases "c = sep")
    case True
    with Cons.prems have "l = [] \<or> l \<in> set (split cs sep)" by simp
    with Cons.IH show ?thesis by auto
  next
    case False
    obtain piece pieces where sp: "split cs sep = piece # pieces"
      by (cases "split cs sep") (cases cs; simp split: if_splits list.splits)+
    with False Cons.prems have "l = c # piece \<or> l \<in> set pieces" by simp
    moreover have "set piece \<subseteq> set cs" using Cons.IH [of piece] sp by simp
    moreover have "l \<in> set pieces \<Longrightarrow> set l \<subseteq> set cs" using Cons.IH [of l] sp by simp
    ultimately show ?thesis by auto
  qed
qed

lemma processLines_append:
  "processLines env st (xs @ ys) =
     (case processLines env st xs of Inl e \<Rightarrow> Inl e | Inr st' \<Rightarrow> processLines env st' ys)"
  by (induction xs arbitrary: st) (auto split: sum.splits)

lemma processLines_continuations:
  assumes "\<forall>c\<in>set conts. firstMatch messagePatterns 0 c = None" "currentMessage st = Some m"
  shows "\<exists>st'. processLines env st conts = Inr st' \<and> messages st' = messages st \<and>
           currentMessage st' =
             Some (m\<lparr>content := content m @ concat (map (\<lambda>c. 32 # trim c) conts)\<rparr>)"
  using assms
proof (induction conts arbitrary: st m)
  case Nil
  then show ?case by simp
next
  case (Cons c cs)
  let ?m = "m\<lparr>content := content m @ [32] @ trim c\<rparr>"
  let ?st = "st\<lparr>currentMessage := Some ?m\<rparr>"
  from Cons.prems have step: "processLine env st c = Inr ?st"
    by (simp add: processLine_def onContinuation_def)
  from Cons.prems(1) have rest: "\<forall>c\<in>set cs. firstMatch messagePatterns 0 c = None" by simp
  have cur: "currentMessage ?st = Some ?m" by simp
  from Cons.IH [OF rest cur] obtain st' where
    "processLines env ?st cs = Inr st'" "messages st' = messages ?st"
    "currentMessage st' = Some (?m\<lparr>content := content ?m @ concat (map (\<lambda>c. 32 # trim c) cs)\<rparr>)"
    by blast
  with step show ?case by simp
qed

lemma processLine_messages_mono:
  "processLine env st l = Inr st' \<Longrightarrow> set (messages st) \<subseteq> set (messages st')"
proof (cases "firstMatch messagePatterns 0 l")
  case None
  assume "processLine env st l = Inr st'"
  with None show ?thesis
    by (auto simp: processLine_def onContinuation_def split: option.splits)
next
  case (Some r)
  assume p: "processLine env st l = Inr st'"
  obtain idx groups where "r = (idx, groups)" by (cases r)
  with Some have fm: "firstMatch messagePatterns 0 l = Some (idx, groups)" by simp
  from onMatch_result [OF fm, of env st] p fm have "messages st' = pushCurrent st"
    by (auto simp: processLine_def)
  then show ?thesis
    by (auto simp: pushCurrent_def split: option.splits)
qed

lemma processLines_messages_mono:
  "processLines env st ls = Inr st' \<Longrightarrow> set (messages st) \<subseteq> set (messages st')"
proof (induction ls arbitrary: st)
  case Nil
  then show ?case by simp
next
  case (Cons l ls)
  from Cons.prems obtain st1 where s: "processLine env st l = Inr st1"
    "processLines env st1 ls = Inr st'"
    by (auto split: sum.splits)
  from processLine_messages_mono [OF s(1)] Cons.IH [OF s(2)] show ?case by blast
qed

lemma messages_subset_pushCurrent: "set (messages st) \<subseteq> set (pushCurrent st)"
  by (auto simp: pushCurrent_def split: option.splits)

lemma block_emitted:
  assumes fm: "firstMatch messagePatterns 0 line = Some (idx, groups)"
    and un: "\<forall>c\<in>set conts. firstMatch messagePatterns 0 c = None"
    and after: "after = [] \<or> firstMatch messagePatterns 0 (hd after) \<noteq> None"
    and ne: "trim (last groups) @ concat (map (\<lambda>c. 32 # trim c) conts) \<noteq> []"
    and run: "processLines env st (line # conts @ after) = Inr st'"
  shows "\<exists>m\<in>set (pushCurrent st').
           content m = trim (last groups) @ concat (map (\<lambda>c. 32 # trim c) conts) \<and>
           sender m = (if idx = 3 then str ''Unknown'' else trim (groups ! senderGroup idx)) \<and>
           isMedia m = checkIfMedia env (last groups)"
proof -
  from onMatch_result [OF fm, of env st] obtain m1 where
    r: "onMatch env idx groups st =
          Inr \<lparr>messages = pushCurrent st, currentMessage = Some m1,
               currentTimestamp = timestamp m1\<rparr>"
    and sb: "startedBy env line [] m1"
    by blast
  let ?s1 = "\<lparr>messages = pushCurrent st, currentMessage = Some m1,
               currentTimestamp = timestamp m1\<rparr>"
  from sb fm have m1: "content m1 = trim (last groups)"
    "sender m1 = (if idx = 3 then str ''Unknown'' else trim (groups ! senderGroup idx))"
    "isMedia m1 = checkIfMedia env (last groups)"
    by (auto simp: startedBy_def)
  have step: "processLine env st line = Inr ?s1"
    using fm r by (simp add: processLine_def)
  have cur: "currentMessage ?s1 = Some m1" by simp
  let ?m2 = "m1\<lparr>content := content m1 @ concat (map (\<lambda>c. 32 # trim c) conts)\<rparr>"
  from processLines_continuations [OF un cur, of env] obtain s2 where
    s2: "processLines env ?s1 conts = Inr s2" "currentMessage s2 = Some ?m2"
    by blast
  from run step s2(1) have fin: "processLines env s2 after = Inr st'"
    by (simp add: processLines_append)
  have props: "content ?m2 = trim (last groups) @ concat (map (\<lambda>c. 32 # trim c) conts)"
    "sender ?m2 = (if idx = 3 then str ''Unknown'' else trim (groups ! senderGroup idx))"
    "isMedia ?m2 = checkIfMedia env (last groups)"
    using m1 by simp_all
  have push: "?m2 \<in> set (pushCurrent s2)"
    using s2(2) ne props(1) by (simp add: pushCurrent_def)
  have "?m2 \<in> set (pushCurrent st')"
  proof (cases after)
    case Nil
    with fin push show ?thesis by simp
  next
    case (Cons a as)
    with after obtain ia ga where fa: "firstMatch messagePatterns 0 a = Some (ia, ga)" by auto
    from fin Cons obtain s3 where s3: "processLine env s2 a = Inr s3" "processLines env s3 as = Inr st'"
      by (auto split: sum.splits)
    from onMatch_result [OF fa, of env s2] s3(1) fa have "messages s3 = pushCurrent s2"
      by (auto simp: processLine_def)
    with push have "?m2 \<in> set (messages s3)" by simp
    with processLines_messages_mono [OF s3(2)] messages_subset_pushCurrent [of st']
    show ?thesis by blast
  qed
  with props show ?thesis by blast
qed

lemma line_emitted:
  assumes p: "parseWhatsAppMessages env rawText = Inr msgs"
    and lines: "splitLines rawText = before @ line # conts @ after"
    and fm: "firstMatch messagePatterns 0 line = Some (idx, groups)"
    and un: "\<forall>c\<in>set conts. firstMatch messagePatterns 0 c = None"
    and after: "after = [] \<or> firstMatch messagePatterns 0 (hd after) \<noteq> None"
    and ne: "trim (last groups) @ concat (map (\<lambda>c. 32 # trim c) conts) \<noteq> []"
  shows "\<exists>m\<in>set msgs.
           content m = trim (last groups) @ concat (map (\<lambda>c. 32 # trim c) conts) \<and>
           sender m = (if idx = 3 then str ''Unknown'' else trim (groups ! senderGroup idx)) \<and>
           isMedia m = checkIfMedia env (last groups)"
proof -
  let ?st0 = "\<lparr>messages = [], currentMessage = None, currentTimestamp = Some (now env)\<rparr>"
  have nonblank: "\<not> (rawText = [] \<or> length (trim rawText) = 0)"
  proof
    assume "rawText = [] \<or> length (trim rawText) = 0"
    then have "trim rawText = []" by (auto simp: trim_def)
    then have ws: "\<forall>x\<in>set rawText. isWhiteSpace x" using trim_nonempty_iff [of rawText] by blast
    have "line \<in> set (splitLines rawText)" using lines by simp
    then have l: "trim line \<noteq> []" "line \<in> set (split rawText 10)" by (simp_all add: splitLines_def)
    from split_pieces_subset [OF l(2)] ws have "\<forall>x\<in>set line. isWhiteSpace x" by blast
    with l(1) show False using trim_nonempty_iff [of line] by blast
  qed
  with p obtain st where run: "processLines env ?st0 (splitLines rawText) = Inr st"
    and msgs: "msgs = map (addMediaType env) (pushCurrent st)"
    by (auto simp: parseWhatsAppMessages_def split: sum.splits)
  from run lines obtain s1 where
    "processLines env ?st0 before = Inr s1" "processLines env s1 (line # conts @ after) = Inr st"
    by (auto simp: processLines_append split: sum.splits)
  from block_emitted [OF fm un after ne this(2)] obtain m where
    "m \<in> set (pushCurrent st)"
    "content m = trim (last groups) @ concat (map (\<lambda>c. 32 # trim c) conts)"
    "sender m = (if idx = 3 then str ''Unknown'' else trim (groups ! senderGroup idx))"
    "isMedia m = checkIfMedia env (last groups)"
    by blast
  then have "addMediaType env m \<in> set msgs \<and>
     content (addMediaType env m) = trim (last groups) @ concat (map (\<lambda>c. 32 # trim c) conts) \<and>
     sender (addMediaType env m) = (if idx = 3 then str ''Unknown'' else trim (groups ! senderGroup idx)) \<and>
     isMedia (addMediaType env m) = checkIfMedia env (last groups)"
    unfolding msgs by simp
  then show ?thesis by blast
qed

section \<open>Totality\<close>

text \<open>
  Claim C2. \<open>parseWhatsAppMessages\<close> is total: on every string it returns a sequence
  of messages and never raises (the only way to raise, a method call on a missing group,
  cannot happen because every pattern that matches captures all of its groups), and on an
  empty or blank string the sequence is empty. Termination is that of the functions
  \<open>run\<close> and \<open>backtrack\<close> of the matcher and of the loop over the lines, all accepted
  with their termination proofs.
\<close>

theorem parseWhatsAppMessages_total:
  "(\<exists>msgs. parseWhatsAppMessages env rawText = Inr msgs) \<and>
   (trim rawText = [] \<longrightarrow> parseWhatsAppMessages env rawText = Inr [])"
proof -
  obtain st where
    "processLines env \<lparr>messages = [], currentMessage = None, currentTimestamp = Some (now env)\<rparr>
       (splitLines rawText) = Inr st"
    using processLines_total by blast
  then show ?thesis
    by (simp add: parseWhatsAppMessages_def)
qed

theorem parseWhatsAppMessages_total_witness:
  "(\<exists>msgs. parseWhatsAppMessages examplePlatform [32, 9, 10, 32] = Inr msgs) \<and>
   trim [32, 9, 10, 32] = [] \<and> parseWhatsAppMessages examplePlatform [32, 9, 10, 32] = Inr []"
  using parseWhatsAppMessages_total [of examplePlatform "[32, 9, 10, 32]"]
  by (simp add: trim_def isWhiteSpace_def)

section \<open>Invariants of the emitted messages\<close>

text \<open>
  Claim C5. In every emitted message the media type is present if and only if
  \<open>isMedia\<close> is true.
\<close>

theorem mediaType_iff_isMedia:
  assumes "parseWhatsAppMessages env rawText = Inr msgs" "m \<in> set msgs"
  shows "mediaType m \<noteq> None \<longleftrightarrow> isMedia m"
proof -
  from emitted_provenance [OF assms] obtain m0 line conts where
    m: "m = addMediaType env m0" and sb: "startedBy env line conts m0"
    by blast
  from sb have "mediaType m0 = None" by (auto simp: startedBy_def)
  then show ?thesis
    unfolding m using detectMediaType_defined [of env "content m0"]
    by (simp add: addMediaType_def)
qed

theorem mediaType_iff_isMedia_witness:
  "parseWhatsAppMessages examplePlatform (str ''[08:00, 2/2/2024] Carol: <Media omitted>'') =
     Inr [\<lparr>timestamp = Some 1706860800000, sender = str ''Carol'',
           content = str ''<Media omitted>'', isMedia = True,
           mediaType = Some (str ''unknown'')\<rparr>] \<and>
   (mediaType \<lparr>timestamp = Some 1706860800000, sender = str ''Carol'',
           content = str ''<Media omitted>'', isMedia = True,
           mediaType = Some (str ''unknown'')\<rparr> \<noteq> None \<longleftrightarrow>
    isMedia \<lparr>timestamp = Some 1706860800000, sender = str ''Carol'',
           content = str ''<Media omitted>'', isMedia = True,
           mediaType = Some (str ''unknown'')\<rparr>)"
proof -
  have p: "parseWhatsAppMessages examplePlatform (str ''[08:00, 2/2/2024] Carol: <Media omitted>'') =
     Inr [\<lparr>timestamp = Some 1706860800000, sender = str ''Carol'',
           content = str ''<Media omitted>'', isMedia = True,
           mediaType = Some (str ''unknown'')\<rparr>]"
    by (simp add: regex_eval date_eval parser_eval media_eval platform_eval)
  from mediaType_iff_isMedia [OF p] p show ?thesis by simp
qed

text \<open>
  Claim C6. No emitted message has a content that is empty after trimming.
\<close>

theorem no_empty_content:
  assumes "parseWhatsAppMessages env rawText = Inr msgs" "m \<in> set msgs"
  shows "trim (content m) \<noteq> []"
proof -
  from emitted_provenance [OF assms] obtain m0 before line conts after where
    m: "m = addMediaType env m0" and ne: "content m0 \<noteq> []"
    and lines: "splitLines rawText = before @ line # conts @ after"
    and sb: "startedBy env line conts m0"
    by blast
  from sb obtain groups where
    c: "content m0 = trim (last groups) @ concat (map (\<lambda>c. 32 # trim c) conts)"
    by (auto simp: startedBy_def)
  have "\<exists>x\<in>set (content m0). \<not> isWhiteSpace x"
  proof (cases conts)
    case Nil
    with c ne have t: "trim (last groups) \<noteq> []" "content m0 = trim (last groups)" by simp_all
    from trim_ends(1) [OF t(1)] t show ?thesis
      by (metis hd_in_set)
  next
    case (Cons l ls)
    then have "l \<in> set (splitLines rawText)" using lines by simp
    then have t: "trim l \<noteq> []" by (rule splitLines_nonblank)
    have "hd (trim l) \<in> set (content m0)"
      using t unfolding c Cons by simp
    with trim_ends(1) [OF t] show ?thesis by blast
  qed
  then show ?thesis
    unfolding m by (simp add: trim_nonempty_iff)
qed

theorem no_empty_content_witness:
  "parseWhatsAppMessages examplePlatform (str ''9:15 Bob:'' @ [10] @ str ''hello'') =
     Inr [\<lparr>timestamp = Some 1704100500000, sender = str ''Bob'', content = str '' hello'',
           isMedia = False, mediaType = None\<rparr>] \<and>
   trim (str '' hello'') \<noteq> []"
proof -
  have p: "parseWhatsAppMessages examplePlatform (str ''9:15 Bob:'' @ [10] @ str ''hello'') =
     Inr [\<lparr>timestamp = Some 1704100500000, sender = str ''Bob'', content = str '' hello'',
           isMedia = False, mediaType = None\<rparr>]"
    by (simp add: regex_eval date_eval parser_eval media_eval platform_eval)
  from no_empty_content [OF p] p show ?thesis by simp
qed

section \<open>The content of a message\<close>

text \<open>
  Claim C7, as the code has it. An emitted message comes from a line matched by a pattern
  and the run of unmatched lines that follows it. Its content is the content group of the
  matched line (the last group of every pattern), trimmed, followed for each continuation
  line in turn by one space and the trimmed line. The result is trimmed when the content
  group is not blank; when the content group is blank the content starts with the
  separating space.
\<close>

theorem content_assembled:
  assumes "parseWhatsAppMessages env rawText = Inr msgs" "m \<in> set msgs"
  shows "\<exists>before line conts after idx groups.
           splitLines rawText = before @ line # conts @ after \<and>
           firstMatch messagePatterns 0 line = Some (idx, groups) \<and>
           (\<forall>c\<in>set conts. firstMatch messagePatterns 0 c = None) \<and>
           (after = [] \<or> firstMatch messagePatterns 0 (hd after) \<noteq> None) \<and>
           content m = trim (last groups) @ concat (map (\<lambda>c. 32 # trim c) conts) \<and>
           (trim (last groups) \<noteq> [] \<longrightarrow> trim (content m) = content m)"
proof -
  from emitted_provenance [OF assms] obtain m0 before line conts after where
    m: "m = addMediaType env m0" and ne: "content m0 \<noteq> []"
    and lines: "splitLines rawText = before @ line # conts @ after"
    and after: "after = [] \<or> firstMatch messagePatterns 0 (hd after) \<noteq> None"
    and sb: "startedBy env line conts m0"
    by blast
  from sb obtain idx groups where
    fm: "firstMatch messagePatterns 0 line = Some (idx, groups)"
    and un: "\<forall>c\<in>set conts. firstMatch messagePatterns 0 c = None"
    and c: "content m0 = trim (last groups) @ concat (map (\<lambda>c. 32 # trim c) conts)"
    by (auto simp: startedBy_def)
  have trimmed: "trim (content m0) = content m0" if g: "trim (last groups) \<noteq> []"
  proof (rule trim_id [OF ne])
    show "\<not> isWhiteSpace (hd (content m0))"
      using trim_ends(1) [OF g] g unfolding c by simp
    show "\<not> isWhiteSpace (last (content m0))"
    proof (cases conts rule: rev_cases)
      case Nil
      then show ?thesis using trim_ends(2) [OF g] unfolding c by simp
    next
      case (snoc ls l)
      then have "l \<in> set (splitLines rawText)" using lines by simp
      then have t: "trim l \<noteq> []" by (rule splitLines_nonblank)
      have "last (content m0) = last (trim l)"
        using t unfolding c snoc by simp
      with trim_ends(2) [OF t] show ?thesis by simp
    qed
  qed
  from lines fm un after c trimmed show ?thesis
    unfolding m by (simp only: addMediaType_fields) blast
qed

theorem content_assembled_witness:
  "parseWhatsAppMessages examplePlatform
     (str ''[10:30, 1/1/2024] Alice: Hello'' @ [10] @ str ''how are you'') =
     Inr [\<lparr>timestamp = Some 1704105000000, sender = str ''Alice'',
           content = str ''Hello how are you'', isMedia = False, mediaType = None\<rparr>] \<and>
   (\<exists>before line conts after idx groups.
      splitLines (str ''[10:30, 1/1/2024] Alice: Hello'' @ [10] @ str ''how are you'') =
        before @ line # conts @ after \<and>
      firstMatch messagePatterns 0 line = Some (idx, groups) \<and>
      (\<forall>c\<in>set conts. firstMatch messagePatterns 0 c = None) \<and>
      (after = [] \<or> firstMatch messagePatterns 0 (hd after) \<noteq> None) \<and>
      str ''Hello how are you'' = trim (last groups) @ concat (map (\<lambda>c. 32 # trim c) conts) \<and>
      (trim (last groups) \<noteq> [] \<longrightarrow> trim (str ''Hello how are you'') = str ''Hello how are you''))"
proof -
  have p: "parseWhatsAppMessages examplePlatform
     (str ''[10:30, 1/1/2024] Alice: Hello'' @ [10] @ str ''how are you'') =
     Inr [\<lparr>timestamp = Some 1704105000000, sender = str ''Alice'',
           content = str ''Hello how are you'', isMedia = False, mediaType = None\<rparr>]"
    by (simp add: regex_eval date_eval parser_eval media_eval platform_eval)
  from content_assembled [OF p] p show ?thesis by simp
qed

text \<open>
  The claim as stated also says that the content has no leading white space. A matched
  line with an empty content followed by a continuation line gives a content that starts
  with the separating space.
\<close>

theorem content_not_trimmed_counterexample:
  "parseWhatsAppMessages examplePlatform (str ''9:15 Bob:'' @ [10] @ str ''hello'') =
     Inr [\<lparr>timestamp = Some 1704100500000, sender = str ''Bob'', content = str '' hello'',
           isMedia = False, mediaType = None\<rparr>] \<and>
   trim (str '' hello'') \<noteq> str '' hello''"
  by (simp add: regex_eval date_eval parser_eval media_eval platform_eval)

section \<open>The media flag\<close>

text \<open>
  Claim C1, as the code has it. The media flag of an emitted message is computed when
  its line is matched: it is true if and only if the lower-cased content group of the
  matched line contains one of the lower-cased media indicators. Continuation lines are
  appended to the content afterwards and do not change the flag. Only the media type is
  computed in the pass over the finished messages, from the final content.
\<close>

theorem isMedia_from_matched_line:
  assumes "parseWhatsAppMessages env rawText = Inr msgs" "m \<in> set msgs"
  shows "\<exists>before line conts after idx groups.
           splitLines rawText = before @ line # conts @ after \<and>
           firstMatch messagePatterns 0 line = Some (idx, groups) \<and>
           (\<forall>c\<in>set conts. firstMatch messagePatterns 0 c = None) \<and>
           (after = [] \<or> firstMatch messagePatterns 0 (hd after) \<noteq> None) \<and>
           content m = trim (last groups) @ concat (map (\<lambda>c. 32 # trim c) conts) \<and>
           (isMedia m \<longleftrightarrow>
              (\<exists>indicator\<in>set mediaIndicators.
                 includes_str (toLowerCase env (last groups)) (toLowerCase env indicator))) \<and>
           mediaType m = (if isMedia m then detectMediaType env (content m) else None)"
proof -
  from emitted_provenance [OF assms] obtain m0 before line conts after where
    m: "m = addMediaType env m0"
    and lines: "splitLines rawText = before @ line # conts @ after"
    and after: "after = [] \<or> firstMatch messagePatterns 0 (hd after) \<noteq> None"
    and sb: "startedBy env line conts m0"
    by blast
  from sb obtain idx groups where
    fm: "firstMatch messagePatterns 0 line = Some (idx, groups)"
    and un: "\<forall>c\<in>set conts. firstMatch messagePatterns 0 c = None"
    and c: "content m0 = trim (last groups) @ concat (map (\<lambda>c. 32 # trim c) conts)"
    and media: "isMedia m0 = checkIfMedia env (last groups)"
    and mt: "mediaType m0 = None"
    by (auto simp: startedBy_def)
  have 1: "isMedia m \<longleftrightarrow> (\<exists>indicator\<in>set mediaIndicators.
                 includes_str (toLowerCase env (last groups)) (toLowerCase env indicator))"
    unfolding m using media by (simp add: checkIfMedia_def Let_def list_ex_iff)
  have 2: "mediaType m = (if isMedia m then detectMediaType env (content m) else None)"
    unfolding m using mt by (simp add: addMediaType_def)
  have 3: "content m = trim (last groups) @ concat (map (\<lambda>c. 32 # trim c) conts)"
    unfolding m using c by simp
  from lines fm un after 1 2 3 show ?thesis by blast
qed

theorem isMedia_from_matched_line_witness:
  "parseWhatsAppMessages examplePlatform
     (str ''[10:30, 1/1/2024] Alice: Hello'' @ [10] @ str ''photo.jpg'') =
     Inr [\<lparr>timestamp = Some 1704105000000, sender = str ''Alice'',
           content = str ''Hello photo.jpg'', isMedia = False, mediaType = None\<rparr>] \<and>
   (\<exists>before line conts after idx groups.
      splitLines (str ''[10:30, 1/1/2024] Alice: Hello'' @ [10] @ str ''photo.jpg'') =
        before @ line # conts @ after \<and>
      firstMatch messagePatterns 0 line = Some (idx, groups) \<and>
      (\<forall>c\<in>set conts. firstMatch messagePatterns 0 c = None) \<and>
      (after = [] \<or> firstMatch messagePatterns 0 (hd after) \<noteq> None) \<and>
      str ''Hello photo.jpg'' = trim (last groups) @ concat (map (\<lambda>c. 32 # trim c) conts) \<and>
      \<not> (\<exists>indicator\<in>set mediaIndicators.
           includes_str (toLowerCase examplePlatform (last groups))
             (toLowerCase examplePlatform indicator)))"
proof -
  have p: "parseWhatsAppMessages examplePlatform
     (str ''[10:30, 1/1/2024] Alice: Hello'' @ [10] @ str ''photo.jpg'') =
     Inr [\<lparr>timestamp = Some 1704105000000, sender = str ''Alice'',
           content = str ''Hello photo.jpg'', isMedia = False, mediaType = None\<rparr>]"
    by (simp add: regex_eval date_eval parser_eval media_eval platform_eval)
  from isMedia_from_matched_line [OF p] p show ?thesis by simp
qed

text \<open>
  The claim as stated takes the flag from the assembled content. A media marker that
  arrives on a continuation line is in the final content, and the flag stays false.
\<close>

theorem isMedia_ignores_continuation_counterexample:
  "parseWhatsAppMessages examplePlatform
     (str ''[10:30, 1/1/2024] Alice: Hello'' @ [10] @ str ''photo.jpg'') =
     Inr [\<lparr>timestamp = Some 1704105000000, sender = str ''Alice'',
           content = str ''Hello photo.jpg'', isMedia = False, mediaType = None\<rparr>] \<and>
   str ''.jpg'' \<in> set mediaIndicators \<and>
   includes_str (toLowerCase examplePlatform (str ''Hello photo.jpg''))
     (toLowerCase examplePlatform (str ''.jpg''))"
  by (simp add: regex_eval date_eval parser_eval media_eval platform_eval)

section \<open>The order of the patterns\<close>

text \<open>
  Claim C3. The four patterns are tried in the order full timestamp, time and sender,
  sender and time, time only; the first that matches gives the fields of the message that
  the line starts. The line \<^verbatim>\<open>9:15 Bob: lunch at noon\<close> is matched by the second and by
  the fourth pattern, and the message has the sender and content of the second.
\<close>

theorem pattern_priority:
  "(firstMatch messagePatterns 0 line = Some (idx, groups) \<longleftrightarrow>
      idx < 4 \<and> match line (messagePatterns ! idx) = Some groups \<and>
      (\<forall>j<idx. match line (messagePatterns ! j) = None)) \<and>
   (firstMatch messagePatterns 0 line = Some (idx, groups) \<longrightarrow>
      (\<exists>st' m. processLine env st line = Inr st' \<and> currentMessage st' = Some m \<and>
         sender m = (if idx = 3 then str ''Unknown'' else trim (groups ! senderGroup idx)) \<and>
         content m = trim (last groups) \<and>
         timestamp m =
           (if idx = 0 then parseTimestamp env (groups ! 0) (groups ! 1)
            else parseTimeOnly env (groups ! (if idx = 2 then 1 else 0)) (currentTimestamp st)))) \<and>
   match (str ''9:15 Bob: lunch at noon'') (messagePatterns ! 1) =
     Some [str ''9:15'', str ''Bob'', str ''lunch at noon''] \<and>
   match (str ''9:15 Bob: lunch at noon'') (messagePatterns ! 3) =
     Some [str ''9:15'', str ''Bob: lunch at noon''] \<and>
   (\<exists>m. parseWhatsAppMessages env (str ''9:15 Bob: lunch at noon'') = Inr [m] \<and>
        sender m = str ''Bob'' \<and> content m = str ''lunch at noon'')"
proof -
  have 1: "firstMatch messagePatterns 0 line = Some (idx, groups) \<longleftrightarrow>
      idx < 4 \<and> match line (messagePatterns ! idx) = Some groups \<and>
      (\<forall>j<idx. match line (messagePatterns ! j) = None)"
    by (rule firstMatch_messagePatterns_iff)
  have 2: "\<exists>st' m. processLine env st line = Inr st' \<and> currentMessage st' = Some m \<and>
         sender m = (if idx = 3 then str ''Unknown'' else trim (groups ! senderGroup idx)) \<and>
         content m = trim (last groups) \<and>
         timestamp m =
           (if idx = 0 then parseTimestamp env (groups ! 0) (groups ! 1)
            else parseTimeOnly env (groups ! (if idx = 2 then 1 else 0)) (currentTimestamp st))"
    if fm: "firstMatch messagePatterns 0 line = Some (idx, groups)"
  proof -
    from onMatch_result [OF fm, of env st] obtain m' where
      r: "onMatch env idx groups st =
            Inr \<lparr>messages = pushCurrent st, currentMessage = Some m',
                 currentTimestamp = timestamp m'\<rparr>"
      and sb: "startedBy env line [] m'"
      and ts: "timestamp m' = (if idx = 0 then parseTimestamp env (groups ! 0) (groups ! 1)
                              else parseTimeOnly env (groups ! (if idx = 2 then 1 else 0))
                                     (currentTimestamp st))"
      by blast
    from sb fm have "sender m' = (if idx = 3 then str ''Unknown'' else trim (groups ! senderGroup idx))"
      "content m' = trim (last groups)"
      by (auto simp: startedBy_def)
    with r ts fm show ?thesis
      by (simp add: processLine_def)
  qed
  have 3: "match (str ''9:15 Bob: lunch at noon'') (messagePatterns ! 1) =
     Some [str ''9:15'', str ''Bob'', str ''lunch at noon'']"
    by (simp add: regex_eval)
  have 4: "match (str ''9:15 Bob: lunch at noon'') (messagePatterns ! 3) =
     Some [str ''9:15'', str ''Bob: lunch at noon'']"
    by (simp add: regex_eval)
  have 5: "\<exists>m. parseWhatsAppMessages env (str ''9:15 Bob: lunch at noon'') = Inr [m] \<and>
        sender m = str ''Bob'' \<and> content m = str ''lunch at noon''"
    by (simp add: regex_eval parseWhatsAppMessages_def splitLines_def trim_def processLine_def
        onMatch_def pushCurrent_def newMessage_def Let_def)
  from 1 2 3 4 5 show ?thesis by blast
qed

theorem pattern_priority_witness:
  "firstMatch messagePatterns 0 (str ''9:15 Bob: lunch at noon'') =
     Some (1, [str ''9:15'', str ''Bob'', str ''lunch at noon'']) \<and>
   (1::nat) < 4 \<and>
   match (str ''9:15 Bob: lunch at noon'') (messagePatterns ! 0) = None \<and>
   (\<exists>st' m. processLine examplePlatform
               \<lparr>messages = [], currentMessage = None, currentTimestamp = Some 1704110400000\<rparr>
               (str ''9:15 Bob: lunch at noon'') = Inr st' \<and>
      currentMessage st' = Some m \<and> sender m = str ''Bob'' \<and> content m = str ''lunch at noon'' \<and>
      timestamp m = Some 1704100500000)"
proof -
  have fm: "firstMatch messagePatterns 0 (str ''9:15 Bob: lunch at noon'') =
     Some (1, [str ''9:15'', str ''Bob'', str ''lunch at noon''])"
    by (simp add: regex_eval)
  have m0: "match (str ''9:15 Bob: lunch at noon'') (messagePatterns ! 0) = None"
    by (simp add: regex_eval)
  have ts: "parseTimeOnly examplePlatform (str ''9:15'') (Some 1704110400000) = Some 1704100500000"
    by (simp add: date_eval platform_eval str_def isDigit_def)
  have tr: "trim (str ''Bob'') = str ''Bob''" "trim (str ''lunch at noon'') = str ''lunch at noon''"
    by (simp_all add: trim_def str_def isWhiteSpace_def)
  from pattern_priority [of "str ''9:15 Bob: lunch at noon''" 1
      "[str ''9:15'', str ''Bob'', str ''lunch at noon'']" examplePlatform
      "\<lparr>messages = [], currentMessage = None, currentTimestamp = Some 1704110400000\<rparr>"]
    fm m0 ts tr
  show ?thesis by (simp add: senderGroup_def)
qed

text \<open>
  Claim C9. A line that the first three patterns do not match and the time-only pattern
  matches gives a message whose sender is \<^verbatim>\<open>Unknown\<close>, wherever the line stands in the
  input: every emitted message that comes from such a line has that sender; every such
  line, with the continuation lines after it, has its message among the emitted ones
  (unless the assembled content is empty) with that sender; and whatever the state of the
  loop, the message the line starts has that sender. The line \<^verbatim>\<open>14:00 see you later\<close>
  gives one message with that sender and the content \<^verbatim>\<open>see you later\<close>.
\<close>

theorem time_only_sender_unknown:
  "(parseWhatsAppMessages env rawText = Inr msgs \<and> m \<in> set msgs \<longrightarrow>
      (\<exists>before' line' conts' after' idx groups'.
         splitLines rawText = before' @ line' # conts' @ after' \<and>
         firstMatch messagePatterns 0 line' = Some (idx, groups') \<and>
         (\<forall>c\<in>set conts'. firstMatch messagePatterns 0 c = None) \<and>
         (after' = [] \<or> firstMatch messagePatterns 0 (hd after') \<noteq> None) \<and>
         content m = trim (last groups') @ concat (map (\<lambda>c. 32 # trim c) conts') \<and>
         (match line' (messagePatterns ! 0) = None \<and> match line' (messagePatterns ! 1) = None \<and>
          match line' (messagePatterns ! 2) = None \<longrightarrow> sender m = str ''Unknown''))) \<and>
   (parseWhatsAppMessages env rawText = Inr msgs \<and>
    splitLines rawText = before @ line # conts @ after \<and>
    match line (messagePatterns ! 0) = None \<and> match line (messagePatterns ! 1) = None \<and>
    match line (messagePatterns ! 2) = None \<and> match line (messagePatterns ! 3) = Some groups \<and>
    (\<forall>c\<in>set conts. firstMatch messagePatterns 0 c = None) \<and>
    (after = [] \<or> firstMatch messagePatterns 0 (hd after) \<noteq> None) \<and>
    trim (last groups) @ concat (map (\<lambda>c. 32 # trim c) conts) \<noteq> [] \<longrightarrow>
      (\<exists>m'\<in>set msgs. sender m' = str ''Unknown'' \<and>
         content m' = trim (last groups) @ concat (map (\<lambda>c. 32 # trim c) conts))) \<and>
   (match line (messagePatterns ! 0) = None \<and> match line (messagePatterns ! 1) = None \<and>
    match line (messagePatterns ! 2) = None \<and> match line (messagePatterns ! 3) = Some groups \<longrightarrow>
      (\<exists>st' m'. processLine env st line = Inr st' \<and> currentMessage st' = Some m' \<and>
         sender m' = str ''Unknown'' \<and> content m' = trim (last groups))) \<and>
   (10 \<notin> set line \<and>
    match line (messagePatterns ! 0) = None \<and> match line (messagePatterns ! 1) = None \<and>
    match line (messagePatterns ! 2) = None \<and> match line (messagePatterns ! 3) \<noteq> None \<and>
    parseWhatsAppMessages env line = Inr msgs \<and> m \<in> set msgs
      \<longrightarrow> sender m = str ''Unknown'') \<and>
   (\<exists>m. parseWhatsAppMessages env (str ''14:00 see you later'') = Inr [m] \<and>
        sender m = str ''Unknown'' \<and> content m = str ''see you later'')"
proof -
  have only4: "firstMatch messagePatterns 0 l = Some (3, gs)"
    if "match l (messagePatterns ! 0) = None" "match l (messagePatterns ! 1) = None"
      "match l (messagePatterns ! 2) = None" "match l (messagePatterns ! 3) = Some gs" for l gs
  proof -
    have "\<forall>j<3. match l (messagePatterns ! j) = None"
    proof (intro allI impI)
      fix j :: nat assume "j < 3"
      then consider "j = 0" | "j = 1" | "j = 2" by linarith
      then show "match l (messagePatterns ! j) = None" using that by cases simp_all
    qed
    with that(4) show ?thesis by (simp add: firstMatch_messagePatterns_iff)
  qed
  have idx3: "idx = 3"
    if "firstMatch messagePatterns 0 l = Some (idx, gs)"
      "match l (messagePatterns ! 0) = None" "match l (messagePatterns ! 1) = None"
      "match l (messagePatterns ! 2) = None" for l idx gs
  proof -
    from that(1) have lt: "idx < 4" and mi: "match l (messagePatterns ! idx) = Some gs"
      by (simp_all add: firstMatch_messagePatterns_iff)
    show ?thesis
    proof (rule ccontr)
      assume "idx \<noteq> 3"
      with lt consider "idx = 0" | "idx = 1" | "idx = 2" by linarith
      then show False using mi that(2,3,4) by cases simp_all
    qed
  qed
  have A: "\<exists>before' line' conts' after' idx groups'.
         splitLines rawText = before' @ line' # conts' @ after' \<and>
         firstMatch messagePatterns 0 line' = Some (idx, groups') \<and>
         (\<forall>c\<in>set conts'. firstMatch messagePatterns 0 c = None) \<and>
         (after' = [] \<or> firstMatch messagePatterns 0 (hd after') \<noteq> None) \<and>
         content m = trim (last groups') @ concat (map (\<lambda>c. 32 # trim c) conts') \<and>
         (match line' (messagePatterns ! 0) = None \<and> match line' (messagePatterns ! 1) = None \<and>
          match line' (messagePatterns ! 2) = None \<longrightarrow> sender m = str ''Unknown'')"
    if p: "parseWhatsAppMessages env rawText = Inr msgs" and mem: "m \<in> set msgs"
  proof -
    from emitted_provenance [OF p mem] obtain m0 before' line' conts' after' where
      m: "m = addMediaType env m0"
      and lines: "splitLines rawText = before' @ line' # conts' @ after'"
      and af: "after' = [] \<or> firstMatch messagePatterns 0 (hd after') \<noteq> None"
      and sb: "startedBy env line' conts' m0"
      by blast
    from sb obtain idx groups' where
      fm: "firstMatch messagePatterns 0 line' = Some (idx, groups')"
      and un: "\<forall>c\<in>set conts'. firstMatch messagePatterns 0 c = None"
      and c: "content m0 = trim (last groups') @ concat (map (\<lambda>c. 32 # trim c) conts')"
      and s: "sender m0 = (if idx = 3 then str ''Unknown'' else trim (groups' ! senderGroup idx))"
      by (auto simp: startedBy_def)
    have "match line' (messagePatterns ! 0) = None \<and> match line' (messagePatterns ! 1) = None \<and>
          match line' (messagePatterns ! 2) = None \<longrightarrow> sender m = str ''Unknown''"
      using idx3 [OF fm] s unfolding m by simp
    moreover have "content m = trim (last groups') @ concat (map (\<lambda>c. 32 # trim c) conts')"
      unfolding m using c by simp
    ultimately show ?thesis using lines fm un af by blast
  qed
  have B: "\<exists>m'\<in>set msgs. sender m' = str ''Unknown'' \<and>
         content m' = trim (last groups) @ concat (map (\<lambda>c. 32 # trim c) conts)"
    if p: "parseWhatsAppMessages env rawText = Inr msgs"
      and lines: "splitLines rawText = before @ line # conts @ after"
      and ms: "match line (messagePatterns ! 0) = None" "match line (messagePatterns ! 1) = None"
        "match line (messagePatterns ! 2) = None" "match line (messagePatterns ! 3) = Some groups"
      and un: "\<forall>c\<in>set conts. firstMatch messagePatterns 0 c = None"
      and af: "after = [] \<or> firstMatch messagePatterns 0 (hd after) \<noteq> None"
      and ne: "trim (last groups) @ concat (map (\<lambda>c. 32 # trim c) conts) \<noteq> []"
    using line_emitted [OF p lines only4 [OF ms] un af ne] by auto
  have C: "\<exists>st' m'. processLine env st line = Inr st' \<and> currentMessage st' = Some m' \<and>
         sender m' = str ''Unknown'' \<and> content m' = trim (last groups)"
    if ms: "match line (messagePatterns ! 0) = None" "match line (messagePatterns ! 1) = None"
        "match line (messagePatterns ! 2) = None" "match line (messagePatterns ! 3) = Some groups"
  proof -
    note fm = only4 [OF ms]
    from onMatch_result [OF fm, of env st] obtain m1 where
      r: "onMatch env 3 groups st =
          Inr \<lparr>messages = pushCurrent st, currentMessage = Some m1,
               currentTimestamp = timestamp m1\<rparr>"
      and sb: "startedBy env line [] m1"
      by blast
    from sb fm have "sender m1 = str ''Unknown''" "content m1 = trim (last groups)"
      by (auto simp: startedBy_def)
    moreover have "processLine env st line =
          Inr \<lparr>messages = pushCurrent st, currentMessage = Some m1,
               currentTimestamp = timestamp m1\<rparr>"
      using fm r by (simp add: processLine_def)
    moreover have "currentMessage \<lparr>messages = pushCurrent st, currentMessage = Some m1,
               currentTimestamp = timestamp m1\<rparr> = Some m1" by simp
    ultimately show ?thesis by blast
  qed
  have D: "sender m = str ''Unknown''"
    if nl: "10 \<notin> set line"
      and m0: "match line (messagePatterns ! 0) = None" and m1: "match line (messagePatterns ! 1) = None"
      and m2: "match line (messagePatterns ! 2) = None"
      and p: "parseWhatsAppMessages env line = Inr msgs" and mem: "m \<in> set msgs"
  proof -
    from emitted_provenance [OF p mem] obtain m0' before' l conts' after' where
      m: "m = addMediaType env m0'"
      and lines: "splitLines line = before' @ l # conts' @ after'"
      and sb: "startedBy env l conts' m0'"
      by blast
    from lines single_line [OF nl] have "l = line" by auto
    with sb obtain idx gs where fm: "firstMatch messagePatterns 0 line = Some (idx, gs)"
      and s: "sender m0' = (if idx = 3 then str ''Unknown'' else trim (gs ! senderGroup idx))"
      by (auto simp: startedBy_def)
    from idx3 [OF fm m0 m1 m2] s show ?thesis unfolding m by simp
  qed
  have E: "\<exists>m. parseWhatsAppMessages env (str ''14:00 see you later'') = Inr [m] \<and>
        sender m = str ''Unknown'' \<and> content m = str ''see you later''"
    by (simp add: regex_eval parseWhatsAppMessages_def splitLines_def trim_def processLine_def
        onMatch_def pushCurrent_def newMessage_def Let_def)
  from A B C D E show ?thesis by blast
qed

theorem time_only_sender_unknown_witness:
  "parseWhatsAppMessages examplePlatform
     (str ''9:15 Bob: hi'' @ [10] @ str ''14:00 see you later'' @ [10] @ str ''bye'') =
     Inr [\<lparr>timestamp = Some 1704100500000, sender = str ''Bob'', content = str ''hi'',
           isMedia = False, mediaType = None\<rparr>,
          \<lparr>timestamp = Some 1704117600000, sender = str ''Unknown'',
           content = str ''see you later bye'', isMedia = False, mediaType = None\<rparr>] \<and>
   (\<exists>before' line' conts' after' idx groups'.
      splitLines (str ''9:15 Bob: hi'' @ [10] @ str ''14:00 see you later'' @ [10] @ str ''bye'') =
        before' @ line' # conts' @ after' \<and>
      firstMatch messagePatterns 0 line' = Some (idx, groups') \<and>
      (\<forall>c\<in>set conts'. firstMatch messagePatterns 0 c = None) \<and>
      (after' = [] \<or> firstMatch messagePatterns 0 (hd after') \<noteq> None) \<and>
      str ''see you later bye'' = trim (last groups') @ concat (map (\<lambda>c. 32 # trim c) conts') \<and>
      (match line' (messagePatterns ! 0) = None \<and> match line' (messagePatterns ! 1) = None \<and>
       match line' (messagePatterns ! 2) = None \<longrightarrow> str ''Unknown'' = str ''Unknown'')) \<and>
   splitLines (str ''9:15 Bob: hi'' @ [10] @ str ''14:00 see you later'' @ [10] @ str ''bye'') =
     [str ''9:15 Bob: hi''] @ str ''14:00 see you later'' # [str ''bye''] @ [] \<and>
   match (str ''14:00 see you later'') (messagePatterns ! 0) = None \<and>
   match (str ''14:00 see you later'') (messagePatterns ! 1) = None \<and>
   match (str ''14:00 see you later'') (messagePatterns ! 2) = None \<and>
   match (str ''14:00 see you later'') (messagePatterns ! 3) =
     Some [str ''14:00'', str ''see you later''] \<and>
   firstMatch messagePatterns 0 (str ''bye'') = None \<and>
   trim (last [str ''14:00'', str ''see you later'']) @
     concat (map (\<lambda>c. 32 # trim c) [str ''bye'']) = str ''see you later bye'' \<and>
   (\<exists>m'\<in>set [\<lparr>timestamp = Some 1704100500000, sender = str ''Bob'', content = str ''hi'',
                isMedia = False, mediaType = None\<rparr>,
               \<lparr>timestamp = Some 1704117600000, sender = str ''Unknown'',
                content = str ''see you later bye'', isMedia = False, mediaType = None\<rparr>].
      sender m' = str ''Unknown'' \<and> content m' = str ''see you later bye'') \<and>
   (\<exists>st' m'. processLine examplePlatform
                \<lparr>messages = [], currentMessage = None, currentTimestamp = Some 1704110400000\<rparr>
                (str ''14:00 see you later'') = Inr st' \<and>
      currentMessage st' = Some m' \<and> sender m' = str ''Unknown'' \<and>
      content m' = str ''see you later'') \<and>
   10 \<notin> set (str ''14:00 see you later'') \<and>
   parseWhatsAppMessages examplePlatform (str ''14:00 see you later'') =
     Inr [\<lparr>timestamp = Some 1704117600000, sender = str ''Unknown'',
           content = str ''see you later'', isMedia = False, mediaType = None\<rparr>] \<and>
   sender \<lparr>timestamp = Some 1704117600000, sender = str ''Unknown'',
           content = str ''see you later'', isMedia = False, mediaType = None\<rparr> = str ''Unknown''"
proof -
  let ?raw = "str ''9:15 Bob: hi'' @ [10] @ str ''14:00 see you later'' @ [10] @ str ''bye''"
  let ?M1 = "\<lparr>timestamp = Some 1704100500000, sender = str ''Bob'', content = str ''hi'',
           isMedia = False, mediaType = None\<rparr>"
  let ?M2 = "\<lparr>timestamp = Some 1704117600000, sender = str ''Unknown'',
           content = str ''see you later bye'', isMedia = False, mediaType = None\<rparr>"
  let ?M = "\<lparr>timestamp = Some 1704117600000, sender = str ''Unknown'',
           content = str ''see you later'', isMedia = False, mediaType = None\<rparr>"
  let ?l = "str ''14:00 see you later''"
  let ?g = "[str ''14:00'', str ''see you later'']"
  let ?st = "\<lparr>messages = [], currentMessage = None, currentTimestamp = Some 1704110400000\<rparr>"
  have p: "parseWhatsAppMessages examplePlatform ?raw = Inr [?M1, ?M2]"
    by (simp add: regex_eval date_eval parser_eval media_eval platform_eval)
  have mem: "?M2 \<in> set [?M1, ?M2]" by simp
  have sl: "splitLines ?raw = [str ''9:15 Bob: hi''] @ ?l # [str ''bye''] @ []"
    by (simp add: splitLines_def trim_def str_def isWhiteSpace_def)
  have m0: "match ?l (messagePatterns ! 0) = None" by (simp add: regex_eval)
  have m1: "match ?l (messagePatterns ! 1) = None" by (simp add: regex_eval)
  have m2: "match ?l (messagePatterns ! 2) = None" by (simp add: regex_eval)
  have m3: "match ?l (messagePatterns ! 3) = Some ?g" by (simp add: regex_eval)
  have m3': "match ?l (messagePatterns ! 3) \<noteq> None" using m3 by simp
  have un: "\<forall>c\<in>set [str ''bye'']. firstMatch messagePatterns 0 c = None"
    by (simp add: regex_eval)
  have un': "firstMatch messagePatterns 0 (str ''bye'') = None" using un by simp
  have af: "([]::jsstring list) = [] \<or> firstMatch messagePatterns 0 (hd []) \<noteq> None" by simp
  have c: "trim (last ?g) @ concat (map (\<lambda>c. 32 # trim c) [str ''bye'']) = str ''see you later bye''"
    by (simp add: trim_def str_def isWhiteSpace_def)
  have ne: "trim (last ?g) @ concat (map (\<lambda>c. 32 # trim c) [str ''bye'']) \<noteq> []"
    unfolding c by (simp add: str_def)
  have tr: "trim (last ?g) = str ''see you later''"
    by (simp add: trim_def str_def isWhiteSpace_def)
  have nl: "10 \<notin> set ?l" by (simp add: str_def)
  have p1: "parseWhatsAppMessages examplePlatform ?l = Inr [?M]"
    by (simp add: regex_eval date_eval parser_eval media_eval platform_eval)
  note T = time_only_sender_unknown [of examplePlatform ?raw "[?M1, ?M2]" ?M2
      "[str ''9:15 Bob: hi'']" ?l "[str ''bye'']" "[]" ?g ?st]
  have A: "\<exists>before' line' conts' after' idx groups'.
      splitLines ?raw = before' @ line' # conts' @ after' \<and>
      firstMatch messagePatterns 0 line' = Some (idx, groups') \<and>
      (\<forall>c\<in>set conts'. firstMatch messagePatterns 0 c = None) \<and>
      (after' = [] \<or> firstMatch messagePatterns 0 (hd after') \<noteq> None) \<and>
      content ?M2 = trim (last groups') @ concat (map (\<lambda>c. 32 # trim c) conts') \<and>
      (match line' (messagePatterns ! 0) = None \<and> match line' (messagePatterns ! 1) = None \<and>
       match line' (messagePatterns ! 2) = None \<longrightarrow> sender ?M2 = str ''Unknown'')"
    using T p mem by blast
  have B: "\<exists>m'\<in>set [?M1, ?M2]. sender m' = str ''Unknown'' \<and>
      content m' = trim (last ?g) @ concat (map (\<lambda>c. 32 # trim c) [str ''bye''])"
    using T p sl m0 m1 m2 m3 un af ne by blast
  have C: "\<exists>st' m'. processLine examplePlatform ?st ?l = Inr st' \<and> currentMessage st' = Some m' \<and>
      sender m' = str ''Unknown'' \<and> content m' = trim (last ?g)"
    using T m0 m1 m2 m3 by blast
  from A have A': "\<exists>before' line' conts' after' idx groups'.
      splitLines ?raw = before' @ line' # conts' @ after' \<and>
      firstMatch messagePatterns 0 line' = Some (idx, groups') \<and>
      (\<forall>c\<in>set conts'. firstMatch messagePatterns 0 c = None) \<and>
      (after' = [] \<or> firstMatch messagePatterns 0 (hd after') \<noteq> None) \<and>
      str ''see you later bye'' = trim (last groups') @ concat (map (\<lambda>c. 32 # trim c) conts') \<and>
      (match line' (messagePatterns ! 0) = None \<and> match line' (messagePatterns ! 1) = None \<and>
       match line' (messagePatterns ! 2) = None \<longrightarrow> str ''Unknown'' = str ''Unknown'')"
    by simp
  from B have B': "\<exists>m'\<in>set [?M1, ?M2]. sender m' = str ''Unknown'' \<and>
      content m' = str ''see you later bye''"
    unfolding c .
  from C have C': "\<exists>st' m'. processLine examplePlatform ?st ?l = Inr st' \<and>
      currentMessage st' = Some m' \<and> sender m' = str ''Unknown'' \<and>
      content m' = str ''see you later''"
    unfolding tr .
  have D: "sender ?M = str ''Unknown''"
    using time_only_sender_unknown [of examplePlatform _ "[?M]" ?M _ ?l] nl m0 m1 m2 m3' p1
    by simp
  from p A' sl m0 m1 m2 m3 un' c B' C' nl p1 D show ?thesis by blast
qed

section \<open>What the patterns capture as time and date\<close>

lemma backtrack_SomeD:
  "backtrack ns lo k rest cur caps = Some gs \<Longrightarrow>
     \<exists>j\<le>k. lo \<le> j \<and> run ns (drop j rest) (map_option (\<lambda>g. g @ take j rest) cur) caps = Some gs"
proof (induction k)
  case 0
  then show ?case
    by (subst (asm) backtrack.simps) (auto split: if_splits option.splits)
next
  case (Suc k)
  show ?case
  proof (cases "run ns (drop (Suc k) rest) (map_option (\<lambda>g. g @ take (Suc k) rest) cur) caps")
    case None
    with Suc.prems have "\<not> Suc k < lo" "backtrack ns lo k rest cur caps = Some gs"
      by (subst (asm) backtrack.simps, auto split: if_splits)+
    from Suc.IH [OF this(2)] show ?thesis
      using le_Suc_eq by blast
  next
    case (Some r)
    with Suc.prems have "\<not> Suc k < lo" "r = gs"
      by (subst (asm) backtrack.simps, auto split: if_splits)+
    with Some show ?thesis by auto
  qed
qed

lemma greedy_props:
  "greedy c hi rest \<le> length rest"
  "\<forall>x\<in>set (take (greedy c hi rest) rest). member c x"
  "hi = Some h \<Longrightarrow> greedy c hi rest \<le> h"
proof -
  let ?xs = "case hi of None \<Rightarrow> rest | Some h \<Rightarrow> take h rest"
  have len: "length ?xs \<le> length rest" by (cases hi) auto
  have pre: "take (length (takeWhile (member c) ?xs)) rest = takeWhile (member c) ?xs"
  proof -
    have "takeWhile (member c) ?xs = take (length (takeWhile (member c) ?xs)) ?xs"
      by (rule takeWhile_eq_take)
    also have "\<dots> = take (length (takeWhile (member c) ?xs)) rest"
    proof (cases hi)
      case None
      then show ?thesis by simp
    next
      case (Some a)
      have "length (takeWhile (member c) (take a rest)) \<le> length (take a rest)"
        by (rule length_takeWhile_le)
      then have "length (takeWhile (member c) (take a rest)) \<le> a" by simp
      then show ?thesis using Some by (simp add: min_absorb1)
    qed
    finally show ?thesis by simp
  qed
  show "greedy c hi rest \<le> length rest"
    unfolding greedy_def using length_takeWhile_le [of "member c" ?xs] len by linarith
  show "\<forall>x\<in>set (take (greedy c hi rest) rest). member c x"
    unfolding greedy_def pre by (auto dest: set_takeWhileD)
  show "greedy c hi rest \<le> h" if "hi = Some h"
    unfolding greedy_def using length_takeWhile_le [of "member c" ?xs] that by auto
qed

lemma run_Rep_SomeD:
  assumes "run (Rep c lo hi # ns) rest cur caps = Some gs"
  shows "\<exists>j. lo \<le> j \<and> j \<le> length rest \<and> (\<forall>h. hi = Some h \<longrightarrow> j \<le> h) \<and>
             (\<forall>x\<in>set (take j rest). member c x) \<and>
             run ns (drop j rest) (map_option (\<lambda>g. g @ take j rest) cur) caps = Some gs"
proof -
  from assms have "backtrack ns lo (greedy c hi rest) rest cur caps = Some gs" by simp
  from backtrack_SomeD [OF this] obtain j where
    j: "j \<le> greedy c hi rest" "lo \<le> j"
       "run ns (drop j rest) (map_option (\<lambda>g. g @ take j rest) cur) caps = Some gs"
    by blast
  have "set (take j rest) \<subseteq> set (take (greedy c hi rest) rest)"
    using j(1) by (metis set_take_subset_set_take)
  with greedy_props(2) [of c hi rest] have "\<forall>x\<in>set (take j rest). member c x" by blast
  moreover have "j \<le> length rest" using j(1) greedy_props(1) [of c hi rest] by linarith
  moreover have "\<forall>h. hi = Some h \<longrightarrow> j \<le> h" using j(1) greedy_props(3) [of hi _ c rest] by fastforce
  ultimately show ?thesis using j(2,3) by blast
qed

lemma run_backtrack_caps:
  "run ns rest cur caps = Some gs \<Longrightarrow> \<exists>new. gs = rev caps @ new"
  "backtrack ns lo k rest cur caps = Some gs \<Longrightarrow> \<exists>new. gs = rev caps @ new"
proof (induction ns rest cur caps and ns lo k rest cur caps arbitrary: gs and gs rule: run_backtrack.induct)
  case (1 rest cur caps)
  then show ?case by auto
next
  case (2 ns rest cur caps)
  then show ?case by auto
next
  case (3 ns rest cur caps)
  then show ?case by (cases cur) auto
next
  case (4 c lo hi ns rest cur caps)
  then show ?case by auto
next
  case (5 ns lo k rest cur caps)
  from backtrack_SomeD [OF "5.prems"] obtain j where
    j: "j \<le> k" "lo \<le> j" "run ns (drop j rest) (map_option (\<lambda>g. g @ take j rest) cur) caps = Some gs"
    by blast
  from "5.prems" have nlt: "\<not> k < lo"
    by (subst (asm) backtrack.simps) (auto split: if_splits)
  show ?case
  proof (cases "run ns (drop k rest) (map_option (\<lambda>g. g @ take k rest) cur) caps")
    case None
    with "5.prems" nlt have k0: "k \<noteq> 0" and bt: "backtrack ns lo (k - 1) rest cur caps = Some gs"
      by (subst (asm) backtrack.simps, auto split: if_splits)+
    from "5.IH"(2) [OF nlt None k0 bt] show ?thesis .
  next
    case (Some r)
    with "5.prems" nlt have "r = gs"
      by (subst (asm) backtrack.simps) auto
    with "5.IH"(1) [OF nlt] Some show ?thesis by auto
  qed
qed

lemma run_Rep_split:
  assumes "run (Rep c lo hi # ns) rest cur caps = Some gs"
  shows "\<exists>w rest'. rest = w @ rest' \<and> lo \<le> length w \<and> (\<forall>h. hi = Some h \<longrightarrow> length w \<le> h) \<and>
           (\<forall>x\<in>set w. member c x) \<and>
           run ns rest' (map_option (\<lambda>g. g @ w) cur) caps = Some gs"
proof -
  from run_Rep_SomeD [OF assms] obtain j where
    j: "lo \<le> j" "j \<le> length rest" "\<forall>h. hi = Some h \<longrightarrow> j \<le> h"
       "\<forall>x\<in>set (take j rest). member c x"
       "run ns (drop j rest) (map_option (\<lambda>g. g @ take j rest) cur) caps = Some gs"
    by blast
  have "rest = take j rest @ drop j rest" "length (take j rest) = j"
    using j(2) by simp_all
  with j show ?thesis by metis
qed

lemma run_Lit:
  assumes "run (Rep (Chr k) 1 (Some 1) # ns) rest cur caps = Some gs"
  shows "\<exists>rest'. rest = k # rest' \<and> run ns rest' (map_option (\<lambda>g. g @ [k]) cur) caps = Some gs"
proof -
  from run_Rep_split [OF assms] obtain w rest' where
    w: "rest = w @ rest'" "1 \<le> length w" "length w \<le> 1" "\<forall>x\<in>set w. member (Chr k) x"
       "run ns rest' (map_option (\<lambda>g. g @ w) cur) caps = Some gs"
    by blast
  from w(2,3) obtain x where "w = [x]"
    by (cases w) auto
  with w(4) have "w = [k]" by simp
  with w(1,5) show ?thesis by simp
qed

lemma run_time_group:
  assumes "run (GOpen # Rep Digit 1 (Some 2) # Rep (Chr 58) 1 (Some 1) # Rep Digit 2 (Some 2)
                 # GClose # ns) rest cur caps = Some gs"
  shows "\<exists>hs ms rest'. hs \<noteq> [] \<and> list_all isDigit hs \<and> ms \<noteq> [] \<and> list_all isDigit ms \<and>
           run ns rest' None ((hs @ [58] @ ms) # caps) = Some gs"
proof -
  from assms have "run (Rep Digit 1 (Some 2) # Rep (Chr 58) 1 (Some 1) # Rep Digit 2 (Some 2)
                 # GClose # ns) rest (Some []) caps = Some gs"
    by simp
  from run_Rep_split [OF this] obtain hs r1 where
    hs: "1 \<le> length hs" "\<forall>x\<in>set hs. member Digit x"
    and 1: "run (Rep (Chr 58) 1 (Some 1) # Rep Digit 2 (Some 2) # GClose # ns) r1 (Some hs) caps
              = Some gs"
    by auto
  from run_Lit [OF 1] obtain r2 where
    2: "run (Rep Digit 2 (Some 2) # GClose # ns) r2 (Some (hs @ [58])) caps = Some gs"
    by auto
  from run_Rep_split [OF 2] obtain ms r3 where
    ms: "2 \<le> length ms" "\<forall>x\<in>set ms. member Digit x"
    and 3: "run (GClose # ns) r3 (Some ((hs @ [58]) @ ms)) caps = Some gs"
    by auto
  from 3 have "run ns r3 None ((hs @ [58] @ ms) # caps) = Some gs" by simp
  moreover have "hs \<noteq> []" "ms \<noteq> []" using hs(1) ms(1) by auto
  moreover have "list_all isDigit hs" "list_all isDigit ms"
    using hs(2) ms(2) by (simp_all add: list_all_iff)
  ultimately show ?thesis by blast
qed

lemma run_date_group:
  assumes "run (GOpen # Rep Digit 1 (Some 2) # Rep (Chr 47) 1 (Some 1) # Rep Digit 1 (Some 2)
                 # Rep (Chr 47) 1 (Some 1) # Rep Digit 4 (Some 4) # GClose # ns) rest cur caps
             = Some gs"
  shows "\<exists>ds mos ys rest'. ds \<noteq> [] \<and> list_all isDigit ds \<and> mos \<noteq> [] \<and> list_all isDigit mos \<and>
           ys \<noteq> [] \<and> list_all isDigit ys \<and>
           run ns rest' None ((ds @ [47] @ mos @ [47] @ ys) # caps) = Some gs"
proof -
  from assms have "run (Rep Digit 1 (Some 2) # Rep (Chr 47) 1 (Some 1) # Rep Digit 1 (Some 2)
                 # Rep (Chr 47) 1 (Some 1) # Rep Digit 4 (Some 4) # GClose # ns) rest (Some []) caps
             = Some gs"
    by simp
  from run_Rep_split [OF this] obtain ds r1 where
    ds: "1 \<le> length ds" "\<forall>x\<in>set ds. member Digit x"
    and 1: "run (Rep (Chr 47) 1 (Some 1) # Rep Digit 1 (Some 2)
                 # Rep (Chr 47) 1 (Some 1) # Rep Digit 4 (Some 4) # GClose # ns) r1 (Some ds) caps
              = Some gs"
    by auto
  from run_Lit [OF 1] obtain r2 where
    2: "run (Rep Digit 1 (Some 2) # Rep (Chr 47) 1 (Some 1) # Rep Digit 4 (Some 4) # GClose # ns)
          r2 (Some (ds @ [47])) caps = Some gs"
    by auto
  from run_Rep_split [OF 2] obtain mos r3 where
    mos: "1 \<le> length mos" "\<forall>x\<in>set mos. member Digit x"
    and 3: "run (Rep (Chr 47) 1 (Some 1) # Rep Digit 4 (Some 4) # GClose # ns)
          r3 (Some ((ds @ [47]) @ mos)) caps = Some gs"
    by auto
  from run_Lit [OF 3] obtain r4 where
    4: "run (Rep Digit 4 (Some 4) # GClose # ns) r4 (Some (((ds @ [47]) @ mos) @ [47])) caps = Some gs"
    by auto
  from run_Rep_split [OF 4] obtain ys r5 where
    ys: "4 \<le> length ys" "\<forall>x\<in>set ys. member Digit x"
    and 5: "run (GClose # ns) r5 (Some ((((ds @ [47]) @ mos) @ [47]) @ ys)) caps = Some gs"
    by auto
  from 5 have "run ns r5 None ((ds @ [47] @ mos @ [47] @ ys) # caps) = Some gs" by simp
  moreover have "ds \<noteq> []" "mos \<noteq> []" "ys \<noteq> []" using ds(1) mos(1) ys(1) by auto
  moreover have "list_all isDigit ds" "list_all isDigit mos" "list_all isDigit ys"
    using ds(2) mos(2) ys(2) by (simp_all add: list_all_iff)
  ultimately show ?thesis by blast
qed

lemma Number_digits: "s \<noteq> [] \<Longrightarrow> list_all isDigit s \<Longrightarrow> \<exists>n. Number s = Some n"
  by (simp add: Number_def)

lemma pattern3_time:
  assumes "run (nodes (messagePatterns ! 3)) s None [] = Some gs"
  shows "isTimeText (gs ! 0)"
proof -
  from assms have "run (GOpen # Rep Digit 1 (Some 2) # Rep (Chr 58) 1 (Some 1) # Rep Digit 2 (Some 2)
                 # GClose # [Plus Space, GOpen, Star Dot, GClose]) s None [] = Some gs"
    by (simp add: messagePatterns_def)
  from run_time_group [OF this] obtain hs ms rest' where
    t: "hs \<noteq> []" "list_all isDigit hs" "ms \<noteq> []" "list_all isDigit ms"
    and r: "run [Plus Space, GOpen, Star Dot, GClose] rest' None [hs @ [58] @ ms] = Some gs"
    by blast
  from run_backtrack_caps(1) [OF r] have "gs ! 0 = hs @ [58] @ ms" by auto
  with Number_digits [OF t(1,2)] Number_digits [OF t(3,4)] show ?thesis
    unfolding isTimeText_def by blast
qed

lemma pattern1_time:
  assumes "run (nodes (messagePatterns ! 1)) s None [] = Some gs"
  shows "isTimeText (gs ! 0)"
proof -
  from assms have "run (GOpen # Rep Digit 1 (Some 2) # Rep (Chr 58) 1 (Some 1) # Rep Digit 2 (Some 2)
                 # GClose # [Plus Space, GOpen, Plus (NotChr 58), GClose, Lit CHR '':'', Star Space,
               GOpen, Star Dot, GClose]) s None [] = Some gs"
    by (simp add: messagePatterns_def)
  from run_time_group [OF this] obtain hs ms rest' where
    t: "hs \<noteq> []" "list_all isDigit hs" "ms \<noteq> []" "list_all isDigit ms"
    and r: "run [Plus Space, GOpen, Plus (NotChr 58), GClose, Lit CHR '':'', Star Space,
               GOpen, Star Dot, GClose] rest' None [hs @ [58] @ ms] = Some gs"
    by blast
  from run_backtrack_caps(1) [OF r] have "gs ! 0 = hs @ [58] @ ms" by auto
  with Number_digits [OF t(1,2)] Number_digits [OF t(3,4)] show ?thesis
    unfolding isTimeText_def by blast
qed

lemma pattern2_time:
  assumes "run (nodes (messagePatterns ! 2)) s None [] = Some gs"
  shows "isTimeText (gs ! 1)"
proof -
  from assms have "run (Plus (NotChr 58) # GClose # Plus Space #
               GOpen # Rep Digit 1 (Some 2) # Rep (Chr 58) 1 (Some 1) # Rep Digit 2 (Some 2)
                 # GClose # [Plus Space, GOpen, Star Dot, GClose]) s (Some []) [] = Some gs"
    by (simp add: messagePatterns_def)
  from run_Rep_split [OF this] obtain w r1 where
    "run (Plus Space #
               GOpen # Rep Digit 1 (Some 2) # Rep (Chr 58) 1 (Some 1) # Rep Digit 2 (Some 2)
                 # GClose # [Plus Space, GOpen, Star Dot, GClose]) r1 None [w] = Some gs"
    by auto
  from run_Rep_split [OF this] obtain r2 where
    "run (GOpen # Rep Digit 1 (Some 2) # Rep (Chr 58) 1 (Some 1) # Rep Digit 2 (Some 2)
                 # GClose # [Plus Space, GOpen, Star Dot, GClose]) r2 None [w] = Some gs"
    by auto
  from run_time_group [OF this] obtain hs ms rest' where
    t: "hs \<noteq> []" "list_all isDigit hs" "ms \<noteq> []" "list_all isDigit ms"
    and r: "run [Plus Space, GOpen, Star Dot, GClose] rest' None [hs @ [58] @ ms, w] = Some gs"
    by blast
  from run_backtrack_caps(1) [OF r] have "gs ! 1 = hs @ [58] @ ms" by auto
  with Number_digits [OF t(1,2)] Number_digits [OF t(3,4)] show ?thesis
    unfolding isTimeText_def by blast
qed

lemma pattern0_time_date:
  assumes "run (nodes (messagePatterns ! 0)) s None [] = Some gs"
  shows "isTimeText (gs ! 0) \<and> isDateText (gs ! 1)"
proof -
  from assms have "run (Rep (Chr 91) 1 (Some 1) #
      GOpen # Rep Digit 1 (Some 2) # Rep (Chr 58) 1 (Some 1) # Rep Digit 2 (Some 2) # GClose #
      Rep (Chr 44) 1 (Some 1) # Star Space #
      GOpen # Rep Digit 1 (Some 2) # Rep (Chr 47) 1 (Some 1) # Rep Digit 1 (Some 2)
                 # Rep (Chr 47) 1 (Some 1) # Rep Digit 4 (Some 4) # GClose #
      [Lit CHR '']'', Star Space, GOpen, Plus (NotChr 58), GClose, Lit CHR '':'',
               Star Space, GOpen, Star Dot, GClose]) s None [] = Some gs"
    by (simp add: messagePatterns_def)
  from run_Lit [OF this] obtain r1 where
    "run (GOpen # Rep Digit 1 (Some 2) # Rep (Chr 58) 1 (Some 1) # Rep Digit 2 (Some 2) # GClose #
      Rep (Chr 44) 1 (Some 1) # Star Space #
      GOpen # Rep Digit 1 (Some 2) # Rep (Chr 47) 1 (Some 1) # Rep Digit 1 (Some 2)
                 # Rep (Chr 47) 1 (Some 1) # Rep Digit 4 (Some 4) # GClose #
      [Lit CHR '']'', Star Space, GOpen, Plus (NotChr 58), GClose, Lit CHR '':'',
               Star Space, GOpen, Star Dot, GClose]) r1 None [] = Some gs"
    by auto
  from run_time_group [OF this] obtain hs ms r2 where
    t: "hs \<noteq> []" "list_all isDigit hs" "ms \<noteq> []" "list_all isDigit ms"
    and 2: "run (Rep (Chr 44) 1 (Some 1) # Star Space #
      GOpen # Rep Digit 1 (Some 2) # Rep (Chr 47) 1 (Some 1) # Rep Digit 1 (Some 2)
                 # Rep (Chr 47) 1 (Some 1) # Rep Digit 4 (Some 4) # GClose #
      [Lit CHR '']'', Star Space, GOpen, Plus (NotChr 58), GClose, Lit CHR '':'',
               Star Space, GOpen, Star Dot, GClose]) r2 None [hs @ [58] @ ms] = Some gs"
    by blast
  from run_Lit [OF 2] obtain r3 where
    "run (Star Space #
      GOpen # Rep Digit 1 (Some 2) # Rep (Chr 47) 1 (Some 1) # Rep Digit 1 (Some 2)
                 # Rep (Chr 47) 1 (Some 1) # Rep Digit 4 (Some 4) # GClose #
      [Lit CHR '']'', Star Space, GOpen, Plus (NotChr 58), GClose, Lit CHR '':'',
               Star Space, GOpen, Star Dot, GClose]) r3 None [hs @ [58] @ ms] = Some gs"
    by auto
  from run_Rep_split [OF this] obtain r4 where
    "run (GOpen # Rep Digit 1 (Some 2) # Rep (Chr 47) 1 (Some 1) # Rep Digit 1 (Some 2)
                 # Rep (Chr 47) 1 (Some 1) # Rep Digit 4 (Some 4) # GClose #
      [Lit CHR '']'', Star Space, GOpen, Plus (NotChr 58), GClose, Lit CHR '':'',
               Star Space, GOpen, Star Dot, GClose]) r4 None [hs @ [58] @ ms] = Some gs"
    by auto
  from run_date_group [OF this] obtain ds mos ys r5 where
    d: "ds \<noteq> []" "list_all isDigit ds" "mos \<noteq> []" "list_all isDigit mos"
       "ys \<noteq> []" "list_all isDigit ys"
    and r: "run [Lit CHR '']'', Star Space, GOpen, Plus (NotChr 58), GClose, Lit CHR '':'',
               Star Space, GOpen, Star Dot, GClose] r5 None
              [ds @ [47] @ mos @ [47] @ ys, hs @ [58] @ ms] = Some gs"
    by blast
  from run_backtrack_caps(1) [OF r]
  have "gs ! 0 = hs @ [58] @ ms" "gs ! 1 = ds @ [47] @ mos @ [47] @ ys" by auto
  with Number_digits [OF t(1,2)] Number_digits [OF t(3,4)]
    Number_digits [OF d(1,2)] Number_digits [OF d(3,4)] Number_digits [OF d(5,6)]
  show ?thesis
    unfolding isTimeText_def isDateText_def by blast
qed

lemma match_run: "match line p = Some gs \<Longrightarrow> \<exists>s. run (nodes p) s None [] = Some gs"
  using search_run [of "nodes p" line gs] by (auto simp: match_def split: if_splits)

lemma time_group_shape:
  assumes "firstMatch messagePatterns 0 line = Some (idx, groups)"
  shows "isTimeText (groups ! (if idx = 2 then 1 else 0))" "idx = 0 \<Longrightarrow> isDateText (groups ! 1)"
proof -
  from assms have lt: "idx < 4" and m: "match line (messagePatterns ! idx) = Some groups"
    by (simp_all add: firstMatch_messagePatterns_iff)
  from match_run [OF m] obtain s where r: "run (nodes (messagePatterns ! idx)) s None [] = Some groups"
    by blast
  from lt consider "idx = 0" | "idx = 1" | "idx = 2" | "idx = 3" by linarith
  then show "isTimeText (groups ! (if idx = 2 then 1 else 0))"
    using r pattern0_time_date pattern1_time pattern2_time pattern3_time
    by cases auto
  show "isDateText (groups ! 1)" if "idx = 0"
    using r that pattern0_time_date by auto
qed

section \<open>The timestamp resolver\<close>




text \<open>
  Claim C8, as the code has it. \<open>parseTimestamp\<close> hands the numbers of the time and the
  date to the date constructor without any check: the day as it is, the month minus one,
  and the year, which the constructor takes as written from 100 on and as 1900 + year
  from 0 to 99. A line matched by the full-timestamp pattern always captures a time and a
  date made of runs of digits, and its message gets the timestamp so built. Nothing is
  validated and nothing raises; a month beyond 12 runs into the next year, so the 13th
  month of 2024 is January 2025.
\<close>

theorem full_timestamp_resolution:
  "(Number hs = Some h \<and> Number ms = Some mi \<and>
    Number ds = Some d \<and> Number mos = Some mo \<and> Number ys = Some y \<longrightarrow>
      parseTimestamp env (hs @ [58] @ ms) (ds @ [47] @ mos @ [47] @ ys) =
        TimeClip (UTC env (MakeDate (MakeDay (if y \<le> 99 then 1900 + y else y) (mo - 1) d)
                                    (MakeTime h mi 0 0)))) \<and>
   (firstMatch messagePatterns 0 line = Some (0, groups) \<longrightarrow>
      (\<exists>st' m hs' ms' ds' mos' ys' h' mi' d' mo' y'.
         processLine env st line = Inr st' \<and> currentMessage st' = Some m \<and>
         groups ! 0 = hs' @ [58] @ ms' \<and> groups ! 1 = ds' @ [47] @ mos' @ [47] @ ys' \<and>
         Number hs' = Some h' \<and> Number ms' = Some mi' \<and>
         Number ds' = Some d' \<and> Number mos' = Some mo' \<and> Number ys' = Some y' \<and>
         timestamp m = parseTimestamp env (groups ! 0) (groups ! 1))) \<and>
   MakeDay yr (mo - 1 + 12) d = MakeDay (yr + 1) (mo - 1) d \<and>
   parseTimestamp env (str ''10:30'') (str ''1/13/2024'') =
     parseTimestamp env (str ''10:30'') (str ''1/1/2025'')"
proof -
  have 0: "\<exists>st' m hs' ms' ds' mos' ys' h' mi' d' mo' y'.
         processLine env st line = Inr st' \<and> currentMessage st' = Some m \<and>
         groups ! 0 = hs' @ [58] @ ms' \<and> groups ! 1 = ds' @ [47] @ mos' @ [47] @ ys' \<and>
         Number hs' = Some h' \<and> Number ms' = Some mi' \<and>
         Number ds' = Some d' \<and> Number mos' = Some mo' \<and> Number ys' = Some y' \<and>
         timestamp m = parseTimestamp env (groups ! 0) (groups ! 1)"
    if fm: "firstMatch messagePatterns 0 line = Some (0, groups)"
  proof -
    from onMatch_result [OF fm, of env st] obtain m' where
      r: "onMatch env 0 groups st =
            Inr \<lparr>messages = pushCurrent st, currentMessage = Some m',
                 currentTimestamp = timestamp m'\<rparr>"
      and ts: "timestamp m' = parseTimestamp env (groups ! 0) (groups ! 1)"
      by auto
    from time_group_shape(1) [OF fm] obtain hs' ms' h' mi' where
      g: "groups ! 0 = hs' @ [58] @ ms'" "Number hs' = Some h'" "Number ms' = Some mi'"
      unfolding isTimeText_def by auto
    from time_group_shape(2) [OF fm] obtain ds' mos' ys' d' mo' y' where
      dg: "groups ! 1 = ds' @ [47] @ mos' @ [47] @ ys'"
        "Number ds' = Some d'" "Number mos' = Some mo'" "Number ys' = Some y'"
      unfolding isDateText_def by auto
    have p: "processLine env st line =
            Inr \<lparr>messages = pushCurrent st, currentMessage = Some m',
                 currentTimestamp = timestamp m'\<rparr>"
      using fm r by (simp add: processLine_def)
    have c: "currentMessage \<lparr>messages = pushCurrent st, currentMessage = Some m',
                 currentTimestamp = timestamp m'\<rparr> = Some m'"
      by simp
    from p c ts g dg show ?thesis by blast
  qed
  have 1: "parseTimestamp env (hs @ [58] @ ms) (ds @ [47] @ mos @ [47] @ ys) =
        TimeClip (UTC env (MakeDate (MakeDay (if y \<le> 99 then 1900 + y else y) (mo - 1) d)
                                    (MakeTime h mi 0 0)))"
    if n: "Number hs = Some h" "Number ms = Some mi"
      "Number ds = Some d" "Number mos = Some mo" "Number ys = Some y"
    unfolding parseTimestamp_digits [OF n]
    using Number_SomeD(3) [OF n(5)] by (simp add: newDate_def)
  have 2: "MakeDay yr (mo - 1 + 12) d = MakeDay (yr + 1) (mo - 1) d"
    by (rule MakeDay_month_overflow)
  have 3: "parseTimestamp env (str ''10:30'') (str ''1/13/2024'') =
     parseTimestamp env (str ''10:30'') (str ''1/1/2025'')"
    by (simp add: date_eval str_def isDigit_def)
  from 0 1 2 3 show ?thesis by blast
qed

theorem full_timestamp_resolution_witness:
  "Number (str ''10'') = Some 10 \<and> Number (str ''30'') = Some 30 \<and> Number (str ''1'') = Some 1 \<and>
   Number (str ''2024'') = Some 2024 \<and>
   parseTimestamp examplePlatform (str ''10'' @ [58] @ str ''30'')
       (str ''1'' @ [47] @ str ''1'' @ [47] @ str ''2024'') =
     TimeClip (UTC examplePlatform (MakeDate (MakeDay 2024 0 1) (MakeTime 10 30 0 0))) \<and>
   TimeClip (UTC examplePlatform (MakeDate (MakeDay 2024 0 1) (MakeTime 10 30 0 0))) =
     Some 1704105000000 \<and>
   firstMatch messagePatterns 0 (str ''[10:30, 1/1/2024] Alice: Hello'') =
     Some (0, [str ''10:30'', str ''1/1/2024'', str ''Alice'', str ''Hello'']) \<and>
   (\<exists>st' m. processLine examplePlatform
               \<lparr>messages = [], currentMessage = None, currentTimestamp = Some 1704110400000\<rparr>
               (str ''[10:30, 1/1/2024] Alice: Hello'') = Inr st' \<and>
      currentMessage st' = Some m \<and> timestamp m = Some 1704105000000)"
proof -
  let ?st = "\<lparr>messages = [], currentMessage = None, currentTimestamp = Some 1704110400000\<rparr>"
  have n: "Number (str ''10'') = Some 10" "Number (str ''30'') = Some 30"
    "Number (str ''1'') = Some 1" "Number (str ''2024'') = Some 2024"
    by (simp_all add: Number_def str_def isDigit_def)
  have y: "(if (2024::int) \<le> 99 then 1900 + 2024 else 2024) = 2024" "(1::int) - 1 = 0"
    by simp_all
  have v: "TimeClip (UTC examplePlatform (MakeDate (MakeDay 2024 0 1) (MakeTime 10 30 0 0))) =
             Some 1704105000000"
    by (simp add: date_eval platform_eval)
  have fm: "firstMatch messagePatterns 0 (str ''[10:30, 1/1/2024] Alice: Hello'') =
     Some (0, [str ''10:30'', str ''1/1/2024'', str ''Alice'', str ''Hello''])"
    by (simp add: regex_eval)
  have pv: "parseTimestamp examplePlatform
      ([str ''10:30'', str ''1/1/2024'', str ''Alice'', str ''Hello''] ! 0)
      ([str ''10:30'', str ''1/1/2024'', str ''Alice'', str ''Hello''] ! 1) = Some 1704105000000"
    by (simp add: date_eval platform_eval str_def isDigit_def)
  have A: "parseTimestamp examplePlatform (str ''10'' @ [58] @ str ''30'')
       (str ''1'' @ [47] @ str ''1'' @ [47] @ str ''2024'') =
     TimeClip (UTC examplePlatform (MakeDate (MakeDay 2024 0 1) (MakeTime 10 30 0 0)))"
    using full_timestamp_resolution [of "str ''10''" 10 "str ''30''" 30 "str ''1''" 1 "str ''1''" 1
      "str ''2024''" 2024 examplePlatform] n
    unfolding y by blast
  have B: "\<exists>st' m. processLine examplePlatform ?st (str ''[10:30, 1/1/2024] Alice: Hello'') = Inr st' \<and>
      currentMessage st' = Some m \<and> timestamp m = Some 1704105000000"
    using full_timestamp_resolution [of _ _ _ _ _ _ _ _ _ _ examplePlatform
        "str ''[10:30, 1/1/2024] Alice: Hello''"
        "[str ''10:30'', str ''1/1/2024'', str ''Alice'', str ''Hello'']" ?st] fm
    unfolding pv by blast
  from n A v fm B show ?thesis by blast
qed

text \<open>
  The claim as stated takes the year literally. A year written \<^verbatim>\<open>0024\<close> passes the
  pattern, \<^verbatim>\<open>Number\<close> makes it 24, and the date constructor reads a year from 0 to 99
  as 1900 + year: the timestamp is that of 1924, not that of the year 24.
\<close>

theorem year_below_100_counterexample:
  "parseWhatsAppMessages examplePlatform (str ''[10:30, 1/1/0024] Alice: Hello'') =
     Inr [\<lparr>timestamp = Some (- 1451655000000), sender = str ''Alice'', content = str ''Hello'',
           isMedia = False, mediaType = None\<rparr>] \<and>
   parseTimestamp examplePlatform (str ''10:30'') (str ''1/1/0024'') = Some (- 1451655000000) \<and>
   parseTimestamp examplePlatform (str ''10:30'') (str ''1/1/1924'') = Some (- 1451655000000) \<and>
   TimeClip (UTC examplePlatform (MakeDate (MakeDay 24 0 1) (MakeTime 10 30 0 0))) =
     Some (- 61409799000000)"
  by (simp add: regex_eval date_eval parser_eval media_eval platform_eval)

section \<open>Filtering by time\<close>

text \<open>
  Claim C10. \<open>filterMessagesByTime\<close> keeps exactly the messages whose timestamp \<open>t\<close> lies
  between the start and the end, both bounds included, in their original order and
  unchanged. A message with an invalid date is dropped, and nothing is kept when a bound
  is an invalid date, since every comparison with NaN is false.
\<close>

theorem filterMessagesByTime_inclusive:
  "filterMessagesByTime msgs startTime endTime =
     filter (\<lambda>msg. \<exists>t s e. timestamp msg = Some t \<and> startTime = Some s \<and> endTime = Some e
                        \<and> s \<le> t \<and> t \<le> e) msgs"
proof -
  have "date_ge a startTime \<and> date_le a endTime \<longleftrightarrow>
        (\<exists>t s e. a = Some t \<and> startTime = Some s \<and> endTime = Some e \<and> s \<le> t \<and> t \<le> e)" for a
    by (cases a; cases startTime; cases endTime) (simp_all add: date_ge_def date_le_def)
  then show ?thesis
    by (simp add: filterMessagesByTime_def)
qed

end
